theory Spec2Isabelle
  imports Main "HOL-Library.Word" "HOL-Library.AList"
begin

unbundle bit_operations_syntax

section \<open>The plugin process: strings, version resource, method results\<close>

text \<open>
  The source is \<^verbatim>\<open>windows/desktop_updater_plugin.cpp\<close>. A \<^verbatim>\<open>std::string\<close> is a
  \<open>string\<close> (bytes), a \<^verbatim>\<open>std::wstring\<close> a list of 16-bit code units.
\<close>

type_synonym wchar = "16 word"
type_synonym wstring = "wchar list"

definition byte_of :: "wchar \<Rightarrow> char" where
  "byte_of u = char_of (unat u)"

definition replacement_char :: string where
  "replacement_char = [CHR 0xEF, CHR 0xBF, CHR 0xBD]"

definition is_high_surrogate :: "wchar \<Rightarrow> bool" where
  "is_high_surrogate u \<longleftrightarrow> 0xD800 \<le> u \<and> u < 0xDC00"

definition is_low_surrogate :: "wchar \<Rightarrow> bool" where
  "is_low_surrogate u \<longleftrightarrow> 0xDC00 \<le> u \<and> u < 0xE000"

definition utf8_pair :: "wchar \<Rightarrow> wchar \<Rightarrow> string" where
  "utf8_pair h l =
     (let cp = 0x10000 + 0x400 * (unat h - 0xD800) + (unat l - 0xDC00)
      in [char_of (0xF0 + cp div 0x40000),
          char_of (0x80 + (cp div 0x1000) mod 0x40),
          char_of (0x80 + (cp div 0x40) mod 0x40),
          char_of (0x80 + cp mod 0x40)])"

text \<open>
  \<^verbatim>\<open>WideCharToMultiByte(CP_UTF8, 0, s, -1, ...)\<close> is a function of the operating system:
  UTF-16 code units to UTF-8 bytes, an unpaired surrogate becoming U+FFFD. With length
  \<open>-1\<close> it reads the buffer up to its first NUL (\<open>c_str\<close> below).
\<close>

fun WideCharToMultiByte :: "wstring \<Rightarrow> string" where
  "WideCharToMultiByte [] = []"
| "WideCharToMultiByte (u # us) =
     (if u < 0x80 then byte_of u # WideCharToMultiByte us
      else if u < 0x800 then
        byte_of (0xC0 OR drop_bit 6 u) # byte_of (0x80 OR (u AND 0x3F)) # WideCharToMultiByte us
      else if is_high_surrogate u then
        (case us of
           [] \<Rightarrow> replacement_char
         | l # rest \<Rightarrow>
             if is_low_surrogate l then utf8_pair u l @ WideCharToMultiByte rest
             else replacement_char @ WideCharToMultiByte us)
      else if is_low_surrogate u then replacement_char @ WideCharToMultiByte us
      else byte_of (0xE0 OR drop_bit 12 u) # byte_of (0x80 OR (drop_bit 6 u AND 0x3F))
             # byte_of (0x80 OR (u AND 0x3F)) # WideCharToMultiByte us)"

definition c_str :: "wstring \<Rightarrow> wstring" where
  "c_str ws = takeWhile (\<lambda>u. u \<noteq> 0) ws"

text \<open>
  \<^verbatim>\<open>WideStringToUtf8\<close> (lines 62-73): empty in, empty out; otherwise the converted bytes
  without the terminator. The size the API reports is the byte count plus one, so the
  \<^verbatim>\<open>size <= 0\<close> branch is the one for a size of zero.
\<close>

definition WideStringToUtf8 :: "wstring \<Rightarrow> string" where
  "WideStringToUtf8 wideStr =
     (if wideStr = [] then []
      else let size = length (WideCharToMultiByte (c_str wideStr)) + 1
           in if size \<le> 0 then [] else take (size - 1) (WideCharToMultiByte (c_str wideStr)))"

text \<open>\<^verbatim>\<open>find_last_of\<close>, \<^verbatim>\<open>find\<close> and \<^verbatim>\<open>find_last_not_of\<close> of the standard library; \<open>None\<close> is \<^verbatim>\<open>npos\<close>.\<close>

fun find_from :: "nat \<Rightarrow> 'a \<Rightarrow> 'a list \<Rightarrow> nat option" where
  "find_from i c [] = None"
| "find_from i c (x # xs) = (if x = c then Some i else find_from (Suc i) c xs)"

definition find_first :: "'a \<Rightarrow> 'a list \<Rightarrow> nat option" where
  "find_first c xs = find_from 0 c xs"

fun find_last_from :: "nat \<Rightarrow> ('a \<Rightarrow> bool) \<Rightarrow> 'a list \<Rightarrow> nat option \<Rightarrow> nat option" where
  "find_last_from i P [] acc = acc"
| "find_last_from i P (x # xs) acc = find_last_from (Suc i) P xs (if P x then Some i else acc)"

definition find_last_of :: "'a \<Rightarrow> 'a list \<Rightarrow> nat option" where
  "find_last_of c xs = find_last_from 0 (\<lambda>x. x = c) xs None"

definition find_last_not_of :: "'a \<Rightarrow> 'a list \<Rightarrow> nat option" where
  "find_last_not_of c xs = find_last_from 0 (\<lambda>x. x \<noteq> c) xs None"

definition backslash :: char where
  "backslash = CHR 0x5C"

text \<open>\<^verbatim>\<open>ExtractExecutableName\<close> (lines 80-84).\<close>

definition ExtractExecutableName :: "string \<Rightarrow> string" where
  "ExtractExecutableName fullPath =
     (case find_last_of backslash fullPath of
        Some pos \<Rightarrow> drop (pos + 1) fullPath
      | None \<Rightarrow> fullPath)"

subsection \<open>Results of a method call\<close>

datatype encodable = ENull | EString string

datatype method_result =
    Success encodable
  | Error string string
  | NotImplemented

subsection \<open>The version resource\<close>

text \<open>
  What the version API answers for the running binary: the size of the version block
  (\<open>0\<close> when there is none), whether the block can be read, the translation table (\<open>None\<close>
  when the query fails, otherwise its language and code-page pairs, four bytes each), and
  the ProductVersion buffer stored for a language and code page.
\<close>

record version_resource =
  verSize :: nat
  info_ok :: bool
  translation :: "(wchar \<times> wchar) list option"
  product_version :: "wchar \<times> wchar \<Rightarrow> wstring option"

definition sizeof_LANGANDCODEPAGE :: nat where
  "sizeof_LANGANDCODEPAGE = 4"

definition plus_sign :: wchar where
  "plus_sign = 0x2B"

definition space :: wchar where
  "space = 0x20"

text \<open>
  The tail of the \<^verbatim>\<open>getCurrentVersion\<close> branch (lines 381-400), from the ProductVersion
  buffer on. \<^verbatim>\<open>find_last_not_of(L' ') + 1\<close> is \<open>0\<close> when the search gives \<^verbatim>\<open>npos\<close>
  (unsigned wrap-around), and \<^verbatim>\<open>erase(pos)\<close> keeps the first \<open>pos\<close> characters.
\<close>

definition build_of_product_version :: "wstring \<Rightarrow> method_result" where
  "build_of_product_version lpBuffer =
     (let productVersion = c_str lpBuffer in
      (case find_first plus_sign productVersion of
        None \<Rightarrow> Error ''VersionError'' ''Invalid version format.''
      | Some plusPos \<Rightarrow>
          (if plusPos + 1 < length productVersion then
             (let buildNumber = drop (plusPos + 1) productVersion;
                  keep = (case find_last_not_of space buildNumber of None \<Rightarrow> 0 | Some i \<Rightarrow> i + 1);
                  buildNumber = take keep buildNumber
              in Success (EString (WideCharToMultiByte (c_str buildNumber))))
           else Error ''VersionError'' ''Invalid version format.'')))"

text \<open>The whole \<^verbatim>\<open>getCurrentVersion\<close> branch (lines 331-401).\<close>

definition getCurrentVersion :: "version_resource \<Rightarrow> method_result" where
  "getCurrentVersion r =
     (if verSize r = 0 then Error ''VersionError'' ''Unable to get version size.''
      else if \<not> info_ok r then Error ''VersionError'' ''Unable to get version info.''
      else (case translation r of
        None \<Rightarrow> Error ''VersionError'' ''Unable to get translation info.''
      | Some lpTranslate \<Rightarrow>
          (if sizeof_LANGANDCODEPAGE * length lpTranslate < sizeof_LANGANDCODEPAGE
           then Error ''VersionError'' ''Unable to get translation info.''
           else (case product_version r (hd lpTranslate) of
             None \<Rightarrow> Error ''VersionError'' ''Unable to query version value.''
           | Some lpBuffer \<Rightarrow> build_of_product_version lpBuffer))))"

subsection \<open>The operating system version\<close>

text \<open>
  \<^verbatim>\<open>IsWindows7OrGreater\<close>, \<^verbatim>\<open>IsWindows8OrGreater\<close> and \<^verbatim>\<open>IsWindows10OrGreater\<close> come from
  the platform header \<^verbatim>\<open>VersionHelpers.h\<close>: they compare the (major, minor) version of the
  system with 6.1, 6.2 and 10.0.
\<close>

type_synonym os_version = "nat \<times> nat"

definition IsWindowsVersionOrGreater :: "nat \<Rightarrow> nat \<Rightarrow> os_version \<Rightarrow> bool" where
  "IsWindowsVersionOrGreater major minor v \<longleftrightarrow>
     major < fst v \<or> (major = fst v \<and> minor \<le> snd v)"

definition IsWindows7OrGreater :: "os_version \<Rightarrow> bool" where
  "IsWindows7OrGreater = IsWindowsVersionOrGreater 6 1"

definition IsWindows8OrGreater :: "os_version \<Rightarrow> bool" where
  "IsWindows8OrGreater = IsWindowsVersionOrGreater 6 2"

definition IsWindows10OrGreater :: "os_version \<Rightarrow> bool" where
  "IsWindows10OrGreater = IsWindowsVersionOrGreater 10 0"

text \<open>The \<^verbatim>\<open>getPlatformVersion\<close> branch (lines 296-313).\<close>

definition getPlatformVersion :: "os_version \<Rightarrow> method_result" where
  "getPlatformVersion v =
     (let version_stream = ''Windows '';
          version_stream =
            (if IsWindows10OrGreater v then version_stream @ ''10+''
             else if IsWindows8OrGreater v then version_stream @ ''8''
             else if IsWindows7OrGreater v then version_stream @ ''7''
             else version_stream)
      in Success (EString version_stream))"

section \<open>The update orchestrator\<close>

text \<open>
  \<^verbatim>\<open>createBatFile\<close> builds the text of \<^verbatim>\<open>update_script.bat\<close> from a fixed template; the only
  variable parts are the four strings and the three constants below, so the file on disk
  is represented by them.
\<close>

record bat_script =
  updateDirStr :: string
  destDirStr :: string
  exePathStr :: string
  exeNameStr :: string
  max_wait_attempts :: nat
  max_retry_attempts :: nat
  retry_delay_seconds :: nat

definition MAX_WAIT_ATTEMPTS :: nat where
  "MAX_WAIT_ATTEMPTS = 5"

definition MAX_RETRY_ATTEMPTS :: nat where
  "MAX_RETRY_ATTEMPTS = 3"

definition RETRY_DELAY_SECONDS :: nat where
  "RETRY_DELAY_SECONDS = 2"

definition MAX_PATH :: nat where
  "MAX_PATH = 260"

text \<open>
  The file \<^verbatim>\<open>update_script.bat\<close> on disk: the whole text of a script, or a file that was
  opened (and so emptied) without the whole text reaching it.
\<close>

datatype disk_file = Whole bat_script | Unfinished

text \<open>
  The running application, as far as the plugin touches it. The first eight fields are
  what the system answers: version, module path, version resource, how the C runtime
  renders a wide string for \<^verbatim>\<open>printf("%ls")\<close> under the current locale, whether the script
  file can be opened for writing, whether the text written to the open stream reaches the
  disk (it does not on a full disk), whether \<^verbatim>\<open>CreateProcess\<close> succeeds and the error code
  if not. The others are what the plugin leaves behind: the script on disk, the processes
  created, the two console streams, and the exit code once \<^verbatim>\<open>ExitProcess\<close> has been
  called.
\<close>

record process =
  os_ver :: os_version
  module_file_name :: wstring
  resource :: version_resource
  printf_ls :: "wstring \<Rightarrow> string"
  script_open_ok :: bool
  script_write_ok :: bool
  create_process_ok :: bool
  last_error :: nat
  script_file :: "disk_file option"
  children :: "string list"
  console_out :: "string list"
  console_err :: "string list"
  exit_code :: "nat option"

definition wide :: "string \<Rightarrow> wstring" where
  "wide s = map of_char s"

definition digit :: "nat \<Rightarrow> char" where
  "digit d = char_of (48 + d)"

function to_string :: "nat \<Rightarrow> string" where
  "to_string n = (if n < 10 then [digit n] else to_string (n div 10) @ [digit (n mod 10)])"
  by pat_completeness auto
termination
  by (relation "measure id") auto

declare to_string.simps [simp del]

text \<open>
  \<^verbatim>\<open>createBatFile\<close> (lines 100-226): first the script (lines 102-215), then the write
  (lines 217-225). Nothing is returned. A failed open is only logged. The stream is not
  tested after \<^verbatim>\<open>batFile << batScript\<close> and \<^verbatim>\<open>close\<close>: when the open succeeds and the write
  fails, the success line is printed all the same and the file is left unfinished.
\<close>

definition batScript :: "wstring \<Rightarrow> wstring \<Rightarrow> wstring \<Rightarrow> bat_script" where
  "batScript updateDir destDir executable_path =
     \<lparr>updateDirStr = WideStringToUtf8 updateDir,
      destDirStr = WideStringToUtf8 destDir,
      exePathStr = WideStringToUtf8 executable_path,
      exeNameStr = ExtractExecutableName (WideStringToUtf8 executable_path),
      max_wait_attempts = MAX_WAIT_ATTEMPTS,
      max_retry_attempts = MAX_RETRY_ATTEMPTS,
      retry_delay_seconds = RETRY_DELAY_SECONDS\<rparr>"

definition createBatFile :: "wstring \<Rightarrow> wstring \<Rightarrow> wstring \<Rightarrow> process \<Rightarrow> process" where
  "createBatFile updateDir destDir executable_path p =
     (if script_open_ok p
      then p\<lparr>script_file := Some (if script_write_ok p
                                      then Whole (batScript updateDir destDir executable_path)
                                      else Unfinished),
             console_out := console_out p @ [''Update batch script created successfully.'']\<rparr>
      else p\<lparr>console_err := console_err p @ [''Error: Failed to create update batch script.'']\<rparr>)"

text \<open>\<^verbatim>\<open>runBatFile\<close> (lines 234-263): nothing is returned; a failed spawn is only logged.\<close>

definition runBatFile :: "process \<Rightarrow> process" where
  "runBatFile p =
     (if create_process_ok p
      then p\<lparr>children := children p @ [''cmd.exe /c update_script.bat''],
             console_out := console_out p @ [''Update script started successfully.'']\<rparr>
      else p\<lparr>console_err := console_err p
               @ [''Error: Failed to start update script. Error code: '' @ to_string (last_error p)]\<rparr>)"

definition ExitProcess :: "nat \<Rightarrow> process \<Rightarrow> process" where
  "ExitProcess code p = p\<lparr>exit_code := Some code\<rparr>"

text \<open>
  \<^verbatim>\<open>RestartApp\<close> (lines 265-290): three calls in sequence, none of them conditional. The
  path is printed with \<^verbatim>\<open>printf("%ls")\<close>, so in the conversion of the C runtime.
\<close>

definition RestartApp :: "process \<Rightarrow> process" where
  "RestartApp p =
     (let p = p\<lparr>console_out := console_out p @ [''Restarting the application...'']\<rparr>;
          executable_path = take (MAX_PATH - 1) (c_str (module_file_name p));
          p = p\<lparr>console_out := console_out p
                 @ [''Executable path: '' @ printf_ls p executable_path]\<rparr>;
          updateDir = wide ''update'';
          destDir = wide ''.'';
          p = createBatFile updateDir destDir executable_path p;
          p = runBatFile p
      in ExitProcess 0 p)"

text \<open>
  \<^verbatim>\<open>HandleMethodCall\<close> (lines 292-406). The reply is \<open>None\<close> when the process has exited
  before \<^verbatim>\<open>result->Success()\<close> is reached.
\<close>

definition HandleMethodCall :: "string \<Rightarrow> process \<Rightarrow> process \<times> method_result option" where
  "HandleMethodCall method_name p =
     (if method_name = ''getPlatformVersion'' then (p, Some (getPlatformVersion (os_ver p)))
      else if method_name = ''restartApp'' then
        (let p' = RestartApp p
         in (p', if exit_code p' = None then Some (Success ENull) else None))
      else if method_name = ''getExecutablePath'' then
        (p, Some (Success (EString
               (WideCharToMultiByte (take (MAX_PATH - 1) (c_str (module_file_name p))) @ [CHR 0x00]))))
      else if method_name = ''getCurrentVersion'' then (p, Some (getCurrentVersion (resource p)))
      else (p, Some NotImplemented))"

section \<open>The deferred executor: \<^verbatim>\<open>update_script.bat\<close>\<close>

subsection \<open>The installation directory\<close>

text \<open>
  The script runs with the installation root as its current directory. A directory is a
  list of named entries, in the order the system enumerates them.
\<close>

type_synonym bytes = string

datatype node = File bytes | Dir "(string \<times> node) list"

type_synonym entries = "(string \<times> node) list"

definition is_dir :: "node option \<Rightarrow> bool" where
  "is_dir x = (case x of Some (Dir ds) \<Rightarrow> True | _ \<Rightarrow> False)"

definition is_file :: "node option \<Rightarrow> bool" where
  "is_file x = (case x of Some (File b) \<Rightarrow> True | _ \<Rightarrow> False)"

definition subdir :: "entries \<Rightarrow> string \<Rightarrow> entries" where
  "subdir f n = (case map_of f n of Some (Dir ds) \<Rightarrow> ds | _ \<Rightarrow> [])"

fun lookup :: "entries \<Rightarrow> string list \<Rightarrow> node option" where
  "lookup es [] = None"
| "lookup es [n] = map_of es n"
| "lookup es (n # p) = (case map_of es n of Some (Dir ds) \<Rightarrow> lookup ds p | _ \<Rightarrow> None)"

fun wf_node :: "node \<Rightarrow> bool" where
  "wf_node (File b) = True"
| "wf_node (Dir es) = (distinct (map fst es) \<and> (\<forall>x \<in> set es. wf_node (snd x)))"

definition file_names :: "entries \<Rightarrow> string list" where
  "file_names f = map fst (filter (\<lambda>x. is_file (Some (snd x))) f)"

definition dir_names :: "entries \<Rightarrow> string list" where
  "dir_names f = map fst (filter (\<lambda>x. is_dir (Some (snd x))) f)"

text \<open>
  Copying a list of source entries into a destination directory, as \<^verbatim>\<open>copy\<close> and
  \<^verbatim>\<open>xcopy /E /I /Y\<close> do: a file replaces the file of the same name, a directory is merged
  into the directory of the same name (created when absent, also when empty). A write
  fails when the system refuses the destination path (\<open>den\<close>, the path being relative to
  the current directory) or when a file and a directory of the same name meet. With
  \<open>continue\<close> (\<^verbatim>\<open>xcopy /C\<close>) the copy goes on after a failure, without it the copy stops
  there. The result is the new destination and whether every write succeeded.
\<close>

fun copy_entries ::
  "bool \<Rightarrow> (string list \<Rightarrow> bool) \<Rightarrow> string list \<Rightarrow> entries \<Rightarrow> entries \<Rightarrow> entries \<times> bool" where
  "copy_entries continue den pre [] dst = (dst, True)"
| "copy_entries continue den pre ((n, File b) # rest) dst =
     (if den (pre @ [n]) \<or> is_dir (map_of dst n)
      then (if continue then (fst (copy_entries continue den pre rest dst), False)
            else (dst, False))
      else copy_entries continue den pre rest (AList.update n (File b) dst))"
| "copy_entries continue den pre ((n, Dir es) # rest) dst =
     (if is_file (map_of dst n)
      then (if continue then (fst (copy_entries continue den pre rest dst), False)
            else (dst, False))
      else (let r = copy_entries continue den (pre @ [n]) es (subdir dst n);
                dst' = AList.update n (Dir (fst r)) dst
            in if snd r then copy_entries continue den pre rest dst'
               else if continue then (fst (copy_entries continue den pre rest dst'), False)
               else (dst', False)))"

definition copy_into ::
  "bool \<Rightarrow> (string list \<Rightarrow> bool) \<Rightarrow> string \<Rightarrow> entries \<Rightarrow> entries \<Rightarrow> entries \<times> bool" where
  "copy_into continue den d src f =
     (if is_dir (map_of f d)
      then (let r = copy_entries continue den [d] src (subdir f d)
            in (AList.update d (Dir (fst r)) f, snd r))
      else (f, False))"

definition rmdir_tree :: "string \<Rightarrow> entries \<Rightarrow> entries" where
  "rmdir_tree n f = (if is_dir (map_of f n) then AList.delete n f else f)"

definition mkdir :: "string \<Rightarrow> entries \<Rightarrow> entries" where
  "mkdir n f = (if map_of f n = None then AList.update n (Dir []) f else f)"

definition del_file :: "string \<Rightarrow> entries \<Rightarrow> entries" where
  "del_file n f = (if is_file (map_of f n) then AList.delete n f else f)"

subsection \<open>What the system answers, and the state of the script\<close>

text \<open>
  The script depends on the system in three ways: whether the \<open>k\<close>-th run of
  \<^verbatim>\<open>tasklist | find\<close> lists the image (\<open>k\<close> counted from \<open>0\<close>), whether \<^verbatim>\<open>taskkill\<close>
  succeeds, and which destination paths are refused during each copy operation (a file
  in use, access denied).
\<close>

datatype copy_op = BackupCopy | ApplyAttempt nat | RestoreCopy

record environment =
  task_listed :: "nat \<Rightarrow> bool"
  taskkill_ok :: bool
  denied :: "copy_op \<Rightarrow> string list \<Rightarrow> bool"

datatype phase = WAIT_EXIT | BACKUP | APPLY | ROLLBACK | CLEANUP

datatype command =
    Tasklist string
  | Taskkill string bool
  | Timeout nat
  | RmdirBackup
  | MkdirBackup
  | CopyToBackup string
  | XcopyToBackup string
  | XcopyUpdate string string
  | XcopyRestore
  | RmdirUpdate string
  | Start string
  | DelScript

text \<open>
  The state: the current directory, the variables \<^verbatim>\<open>COUNT\<close>, \<^verbatim>\<open>RETRY\<close> and
  \<^verbatim>\<open>ERRORLEVEL\<close>, the number of polls made so far, and the commands run so far, each with
  the step it belongs to and the directory it left. The \<^verbatim>\<open>echo\<close> lines only print and are
  left out; \<^verbatim>\<open>ERRORLEVEL\<close> is kept for the two commands whose result the script tests.
\<close>

record machine =
  fs :: entries
  COUNT :: nat
  RETRY :: nat
  ERRORLEVEL :: nat
  polls :: nat
  trace :: "(phase \<times> command \<times> entries) list"

definition exec :: "phase \<Rightarrow> command \<Rightarrow> entries \<Rightarrow> machine \<Rightarrow> machine" where
  "exec ph c f m = m\<lparr>fs := f, trace := trace m @ [(ph, c, f)]\<rparr>"

subsection \<open>Step 1: wait for the application to close (script lines 122-139)\<close>

text \<open>
  \<^verbatim>\<open>
  :wait_loop
  tasklist /FI "IMAGENAME eq NAME" 2>NUL | find /I "NAME" >NUL
  if "%ERRORLEVEL%"=="0" (
      set /a COUNT+=1
      echo   Attempt %COUNT%/5 - Application still running...
      if %COUNT% GEQ 5 (
          echo   Timeout reached - force closing application
          taskkill /F /IM "NAME" >NUL 2>&1
          goto step2
      )
      timeout /t 1 /nobreak > NUL
      goto wait_loop
  )
  \<close>
  The command interpreter replaces every \<^verbatim>\<open>%VAR%\<close> of a parenthesised block when it reads
  the block, before any command of the block runs (the script does not use delayed
  expansion). So the \<^verbatim>\<open>%COUNT%\<close> compared with the limit is the value \<^verbatim>\<open>COUNT\<close> had before
  \<^verbatim>\<open>set /a COUNT+=1\<close> of the same pass: \<open>count_read\<close> below.
\<close>

function wait_loop :: "bat_script \<Rightarrow> environment \<Rightarrow> machine \<Rightarrow> machine" where
  "wait_loop s env m =
     (let found = task_listed env (polls m);
          m1 = (exec WAIT_EXIT (Tasklist (exeNameStr s)) (fs m) m)
                 \<lparr>polls := polls m + 1, ERRORLEVEL := (if found then 0 else 1)\<rparr>
      in if ERRORLEVEL m1 = 0 then
           (let count_read = COUNT m1;
                m2 = m1\<lparr>COUNT := COUNT m1 + 1\<rparr>
            in if count_read \<ge> max_wait_attempts s
               then exec WAIT_EXIT (Taskkill (exeNameStr s) (taskkill_ok env)) (fs m2) m2
               else wait_loop s env (exec WAIT_EXIT (Timeout 1) (fs m2) m2))
         else m1)"
  by pat_completeness auto
termination
  by (relation "measure (\<lambda>(s, env, m). max_wait_attempts s - COUNT m)")
     (auto simp: exec_def)

declare wait_loop.simps [simp del]

subsection \<open>Step 2: backup (script lines 141-169)\<close>

text \<open>
  \<^verbatim>\<open>
  for %%F in (*) do (
      if not "%%F"=="backup" (
          if not "%%F"=="update_script.bat" (
              copy "%%F" "backup\%%F" >NUL 2>&1 ) ) )
  \<close>
  \<^verbatim>\<open>for %%F in (*)\<close> runs over the files of the current directory; \<^verbatim>\<open>copy\<close> reads the file of
  that name and writes it into the directory \<^verbatim>\<open>backup\<close>, if there is one.
\<close>

definition copy_to_backup :: "environment \<Rightarrow> string \<Rightarrow> entries \<Rightarrow> entries" where
  "copy_to_backup env F f =
     (case map_of f F of
        Some (File b) \<Rightarrow> fst (copy_into False (denied env BackupCopy) ''backup'' [(F, File b)] f)
      | _ \<Rightarrow> f)"

fun backup_files :: "environment \<Rightarrow> string list \<Rightarrow> machine \<Rightarrow> machine" where
  "backup_files env [] m = m"
| "backup_files env (F # rest) m =
     (if F \<noteq> ''backup'' then
        (if F \<noteq> ''update_script.bat'' then
           backup_files env rest (exec BACKUP (CopyToBackup F) (copy_to_backup env F (fs m)) m)
         else backup_files env rest m)
      else backup_files env rest m)"

text \<open>
  \<^verbatim>\<open>
  for /D %%D in (*) do (
      if not "%%D"=="backup" (
          if not "%%D"=="update" (
              xcopy /E /H /C /I /Y "%%D" "backup\%%D\" >NUL 2>&1 ) ) )
  \<close>
  \<^verbatim>\<open>for /D %%D in (*)\<close> runs over the directories of the current directory; \<^verbatim>\<open>xcopy\<close> copies
  the tree of that name into the directory \<^verbatim>\<open>backup\<close>, if there is one.
\<close>

definition xcopy_to_backup :: "environment \<Rightarrow> string \<Rightarrow> entries \<Rightarrow> entries" where
  "xcopy_to_backup env D f =
     (case map_of f D of
        Some (Dir es) \<Rightarrow> fst (copy_into True (denied env BackupCopy) ''backup'' [(D, Dir es)] f)
      | _ \<Rightarrow> f)"

fun backup_dirs :: "environment \<Rightarrow> string list \<Rightarrow> machine \<Rightarrow> machine" where
  "backup_dirs env [] m = m"
| "backup_dirs env (D # rest) m =
     (if D \<noteq> ''backup'' then
        (if D \<noteq> ''update'' then
           backup_dirs env rest (exec BACKUP (XcopyToBackup D) (xcopy_to_backup env D (fs m)) m)
         else backup_dirs env rest m)
      else backup_dirs env rest m)"

text \<open>
  \<^verbatim>\<open>
  :step2
  if exist backup ( rmdir /s /q backup >NUL 2>&1 )
  mkdir backup >NUL 2>&1
  \<close>
  followed by the two loops. \<^verbatim>\<open>rmdir\<close> removes a directory and leaves a file alone;
  \<^verbatim>\<open>mkdir\<close> fails when the name is taken.
\<close>

definition step2 :: "environment \<Rightarrow> machine \<Rightarrow> machine" where
  "step2 env m =
     (let m1 = (if map_of (fs m) ''backup'' \<noteq> None
                then exec BACKUP RmdirBackup (rmdir_tree ''backup'' (fs m)) m else m);
          m2 = exec BACKUP MkdirBackup (mkdir ''backup'' (fs m1)) m1;
          m3 = backup_files env (file_names (fs m2)) m2
      in backup_dirs env (dir_names (fs m3)) m3)"

subsection \<open>Step 3: apply the update (script lines 171-189)\<close>

text \<open>
  \<^verbatim>\<open>
  :retry_copy
  set /a RETRY+=1
  xcopy /E /I /Y "UPDATE\*" "DEST\" >NUL 2>&1
  if %ERRORLEVEL% EQU 0 (
      rmdir /s /q backup >NUL 2>&1
      goto cleanup
  )
  if %RETRY% LSS 3 (
      timeout /t 2 /nobreak > NUL
      goto retry_copy
  )
  \<close>
  Here \<^verbatim>\<open>%RETRY%\<close> is read on a line of its own, after the increment. The only caller passes
  \<^verbatim>\<open>update\<close> and \<^verbatim>\<open>.\<close>: the source is the entry of that name in the current directory and
  the destination the current directory itself. Without \<^verbatim>\<open>/C\<close> the copy stops at the first
  failure. The result says whether the script goes to \<^verbatim>\<open>cleanup\<close> (\<open>True\<close>) or falls
  through to step 4.
\<close>

definition xcopy_update :: "bat_script \<Rightarrow> (string list \<Rightarrow> bool) \<Rightarrow> entries \<Rightarrow> entries \<times> bool" where
  "xcopy_update s den f =
     (if is_dir (map_of f (updateDirStr s))
      then copy_entries False den [] (subdir f (updateDirStr s)) f
      else (f, False))"

function retry_copy :: "bat_script \<Rightarrow> environment \<Rightarrow> machine \<Rightarrow> machine \<times> bool" where
  "retry_copy s env m =
     (let m1 = m\<lparr>RETRY := RETRY m + 1\<rparr>;
          r = xcopy_update s (denied env (ApplyAttempt (RETRY m1))) (fs m1);
          m2 = (exec APPLY (XcopyUpdate (updateDirStr s) (destDirStr s)) (fst r) m1)
                 \<lparr>ERRORLEVEL := (if snd r then 0 else 4)\<rparr>
      in if ERRORLEVEL m2 = 0
         then (exec APPLY RmdirBackup (rmdir_tree ''backup'' (fs m2)) m2, True)
         else if RETRY m2 < max_retry_attempts s
         then retry_copy s env (exec APPLY (Timeout (retry_delay_seconds s)) (fs m2) m2)
         else (m2, False))"
  by pat_completeness auto
termination
  by (relation "measure (\<lambda>(s, env, m). max_retry_attempts s - RETRY m)")
     (auto simp: exec_def)

declare retry_copy.simps [simp del]

subsection \<open>Step 4: restore the backup (script lines 191-201)\<close>

text \<open>
  \<^verbatim>\<open>
  xcopy /E /H /C /I /Y backup\*.* . >NUL 2>&1
  if %ERRORLEVEL% EQU 0 ( echo Backup restored successfully )
  else ( echo WARNING: Some files may not have been restored properly )
  rmdir /s /q backup >NUL 2>&1
  \<close>
\<close>

definition xcopy_restore :: "(string list \<Rightarrow> bool) \<Rightarrow> entries \<Rightarrow> entries \<times> bool" where
  "xcopy_restore den f =
     (if is_dir (map_of f ''backup'')
      then copy_entries True den [] (subdir f ''backup'') f
      else (f, False))"

definition step4 :: "environment \<Rightarrow> machine \<Rightarrow> machine" where
  "step4 env m =
     (let r = xcopy_restore (denied env RestoreCopy) (fs m);
          m1 = (exec ROLLBACK XcopyRestore (fst r) m)\<lparr>ERRORLEVEL := (if snd r then 0 else 4)\<rparr>
      in exec ROLLBACK RmdirBackup (rmdir_tree ''backup'' (fs m1)) m1)"

subsection \<open>Step 5: cleanup and restart (script lines 203-215)\<close>

text \<open>
  \<^verbatim>\<open>
  :cleanup
  rmdir /S /Q "UPDATE" >NUL 2>&1
  start /MAX "" "EXEPATH"
  timeout /t 1 /nobreak > NUL
  del update_script.bat >NUL 2>&1
  \<close>
\<close>

definition cleanup :: "bat_script \<Rightarrow> machine \<Rightarrow> machine" where
  "cleanup s m =
     (let m1 = exec CLEANUP (RmdirUpdate (updateDirStr s)) (rmdir_tree (updateDirStr s) (fs m)) m;
          m2 = exec CLEANUP (Start (exePathStr s)) (fs m1) m1;
          m3 = exec CLEANUP (Timeout 1) (fs m2) m2
      in exec CLEANUP DelScript (del_file ''update_script.bat'' (fs m3)) m3)"

subsection \<open>The whole script\<close>

text \<open>
  The script starts with \<^verbatim>\<open>set COUNT=0\<close> before the wait loop and \<^verbatim>\<open>set RETRY=0\<close> before the
  copy loop. A successful copy attempt jumps to \<^verbatim>\<open>cleanup\<close>, the failure of the last
  attempt falls through to step 4, which falls through to \<^verbatim>\<open>cleanup\<close>. The script ends
  after it has deleted itself.
\<close>

definition boot :: "entries \<Rightarrow> machine" where
  "boot f = \<lparr>fs = f, COUNT = 0, RETRY = 0, ERRORLEVEL = 0, polls = 0, trace = []\<rparr>"

definition apply_update :: "bat_script \<Rightarrow> environment \<Rightarrow> machine \<Rightarrow> machine" where
  "apply_update s env m =
     (let r = retry_copy s env (m\<lparr>RETRY := 0\<rparr>)
      in if snd r then fst r else step4 env (fst r))"

definition run_script :: "bat_script \<Rightarrow> environment \<Rightarrow> entries \<Rightarrow> machine" where
  "run_script s env f =
     cleanup s (apply_update s env (step2 env (wait_loop s env ((boot f)\<lparr>COUNT := 0\<rparr>))))"

definition commands :: "machine \<Rightarrow> command list" where
  "commands m = map (\<lambda>x. fst (snd x)) (trace m)"

section \<open>Notions used to state the properties\<close>

subsection \<open>States inside the loops and inside step 2\<close>

text \<open>
  Names for the states inside the two loops: after a poll, after the pause that follows a
  positive poll, after the forced close; after one copy attempt, after the delay.
\<close>

definition poll :: "bat_script \<Rightarrow> environment \<Rightarrow> machine \<Rightarrow> machine" where
  "poll s env m =
     (exec WAIT_EXIT (Tasklist (exeNameStr s)) (fs m) m)
       \<lparr>polls := polls m + 1, ERRORLEVEL := (if task_listed env (polls m) then 0 else 1)\<rparr>"

definition pause :: "bat_script \<Rightarrow> environment \<Rightarrow> machine \<Rightarrow> machine" where
  "pause s env m = exec WAIT_EXIT (Timeout 1) (fs m) ((poll s env m)\<lparr>COUNT := COUNT m + 1\<rparr>)"

definition force_close :: "bat_script \<Rightarrow> environment \<Rightarrow> machine \<Rightarrow> machine" where
  "force_close s env m =
     exec WAIT_EXIT (Taskkill (exeNameStr s) (taskkill_ok env)) (fs m)
       ((poll s env m)\<lparr>COUNT := COUNT m + 1\<rparr>)"

definition attempt :: "bat_script \<Rightarrow> environment \<Rightarrow> machine \<Rightarrow> machine" where
  "attempt s env m =
     (exec APPLY (XcopyUpdate (updateDirStr s) (destDirStr s))
        (fst (xcopy_update s (denied env (ApplyAttempt (RETRY m + 1))) (fs m)))
        (m\<lparr>RETRY := RETRY m + 1\<rparr>))
       \<lparr>ERRORLEVEL := (if snd (xcopy_update s (denied env (ApplyAttempt (RETRY m + 1))) (fs m))
                        then 0 else 4)\<rparr>"

definition delay :: "bat_script \<Rightarrow> environment \<Rightarrow> machine \<Rightarrow> machine" where
  "delay s env m =
     exec APPLY (Timeout (retry_delay_seconds s)) (fs (attempt s env m)) (attempt s env m)"

text \<open>The current directory after each part of step 2, as functions of the directory alone.\<close>

definition backup_made :: "entries \<Rightarrow> entries" where
  "backup_made f =
     mkdir ''backup'' (if map_of f ''backup'' \<noteq> None then rmdir_tree ''backup'' f else f)"

definition files_copied :: "environment \<Rightarrow> string list \<Rightarrow> entries \<Rightarrow> entries" where
  "files_copied env ns f =
     fold (\<lambda>F f. if F \<noteq> ''backup'' \<and> F \<noteq> ''update_script.bat''
                  then copy_to_backup env F f else f) ns f"

definition dirs_copied :: "environment \<Rightarrow> string list \<Rightarrow> entries \<Rightarrow> entries" where
  "dirs_copied env ns f =
     fold (\<lambda>D f. if D \<noteq> ''backup'' \<and> D \<noteq> ''update''
                  then xcopy_to_backup env D f else f) ns f"

subsection \<open>The backup directory\<close>

text \<open>The backup directory of a state of the current directory, and its contents.\<close>

definition backup_exists :: "entries \<Rightarrow> bool" where
  "backup_exists f = is_dir (map_of f ''backup'')"

definition backup_of :: "entries \<Rightarrow> entries" where
  "backup_of f = subdir f ''backup''"

text \<open>
  Which entries of the current directory step 2 copies: files other than \<^verbatim>\<open>backup\<close> and
  \<^verbatim>\<open>update_script.bat\<close>, directories other than \<^verbatim>\<open>backup\<close> and \<^verbatim>\<open>update\<close>.
\<close>

definition backed_up :: "string \<Rightarrow> node option \<Rightarrow> node option" where
  "backed_up n x =
     (case x of
        None \<Rightarrow> None
      | Some (File b) \<Rightarrow> if n = ''backup'' \<or> n = ''update_script.bat'' then None else Some (File b)
      | Some (Dir es) \<Rightarrow> if n = ''backup'' \<or> n = ''update'' then None else Some (Dir es))"


subsection \<open>Reading the trace\<close>

text \<open>The commands a step adds to the trace of the state it starts from.\<close>

definition new_commands :: "machine \<Rightarrow> machine \<Rightarrow> command list" where
  "new_commands m m' = drop (length (trace m)) (commands m')"

definition is_start :: "command \<Rightarrow> bool" where
  "is_start c = (case c of Start e \<Rightarrow> True | _ \<Rightarrow> False)"

definition is_rmdir_update :: "command \<Rightarrow> bool" where
  "is_rmdir_update c = (case c of RmdirUpdate u \<Rightarrow> True | _ \<Rightarrow> False)"

definition is_poll :: "command \<Rightarrow> bool" where
  "is_poll c = (case c of Tasklist n \<Rightarrow> True | _ \<Rightarrow> False)"

definition quiet :: "command \<Rightarrow> bool" where
  "quiet c = (\<not> is_start c \<and> \<not> is_rmdir_update c)"

text \<open>
  A step \<open>grows\<close> the trace when it only appends commands other than the restart of the
  application and the removal of the staging directory.
\<close>

definition grows :: "machine \<Rightarrow> machine \<Rightarrow> bool" where
  "grows m m' \<longleftrightarrow> (\<exists>ws. commands m' = commands m @ ws \<and> list_all quiet ws)"

text \<open>
  The life of the backup directory, read off the trace: the directory exists in the state
  a command leaves exactly when the command belongs to step 2, 3 or 4 and is not
  \<^verbatim>\<open>rmdir /s /q backup\<close>. \<open>apply_begun\<close> says that a step is step 3 or a later one.
\<close>

definition apply_begun :: "phase \<Rightarrow> bool" where
  "apply_begun ph = (ph = APPLY \<or> ph = ROLLBACK \<or> ph = CLEANUP)"

definition backup_rule :: "phase \<times> command \<times> entries \<Rightarrow> bool" where
  "backup_rule x =
     (backup_exists (snd (snd x)) \<longleftrightarrow>
        (fst x = BACKUP \<or> fst x = APPLY \<or> fst x = ROLLBACK) \<and> fst (snd x) \<noteq> RmdirBackup)"

definition all_ok :: "machine \<Rightarrow> bool" where
  "all_ok m = (\<forall>x \<in> set (trace m). backup_rule x)"

subsection \<open>Concrete inputs\<close>

text \<open>
  A version resource is \<open>usable\<close> with a buffer when every query of \<^verbatim>\<open>getCurrentVersion\<close>
  succeeds and the ProductVersion of the first translation is that buffer.
\<close>

definition usable :: "version_resource \<Rightarrow> wstring \<Rightarrow> bool" where
  "usable r buf \<longleftrightarrow> verSize r \<noteq> 0 \<and> info_ok r \<and>
     (case translation r of Some (t # ts) \<Rightarrow> product_version r t = Some buf | _ \<Rightarrow> False)"

definition resource_with :: "wstring \<Rightarrow> version_resource" where
  "resource_with buf = \<lparr>verSize = 1024, info_ok = True, translation = Some [(0x0409, 0x04B0)],
      product_version = (\<lambda>t. if t = (0x0409, 0x04B0) then Some buf else None)\<rparr>"

text \<open>
  An application at \<^verbatim>\<open>C:\app\app.exe\<close>, the script that \<^verbatim>\<open>RestartApp\<close> writes for it, and
  the same application when the process cannot be created, when the script file cannot be
  opened, and when it can be opened but the disk is full.
\<close>

definition app_path :: wstring where
  "app_path = wide (''C:'' @ [backslash] @ ''app'' @ [backslash] @ ''app.exe'')"

definition the_script :: bat_script where
  "the_script = batScript (wide ''update'') (wide ''.'') app_path"

definition idle_process :: process where
  "idle_process = \<lparr>os_ver = (10, 0),
     module_file_name = app_path @ [0],
     resource = resource_with (wide ''1.2.3+45'' @ [0]),
     printf_ls = WideCharToMultiByte,
     script_open_ok = True, script_write_ok = True, create_process_ok = True, last_error = 0,
     script_file = None, children = [], console_out = [], console_err = [], exit_code = None\<rparr>"

definition spawn_failure :: process where
  "spawn_failure = idle_process\<lparr>create_process_ok := False, last_error := 2\<rparr>"

definition no_access :: process where
  "no_access = idle_process\<lparr>script_open_ok := False\<rparr>"

definition disk_full :: process where
  "disk_full = idle_process\<lparr>script_write_ok := False\<rparr>"

text \<open>
  An installation root with a staged update, and six systems: \<open>calm\<close> lists no process
  and refuses nothing; \<open>stubborn\<close> lists the process at every poll; \<open>locked_extra\<close>
  always refuses \<^verbatim>\<open>extra.dll\<close>; \<open>busy\<close> also refuses \<^verbatim>\<open>app.exe\<close> while the backup is
  restored; \<open>mixed\<close> always refuses \<^verbatim>\<open>extra.dll\<close>, and \<^verbatim>\<open>data.dll\<close> while the backup is
  restored; \<open>locked_app\<close> always refuses \<^verbatim>\<open>app.exe\<close>. And a second installation root,
  whose update package has a directory named \<^verbatim>\<open>backup\<close>.
\<close>

definition install_root :: entries where
  "install_root =
     [(''app.exe'', File ''old''), (''data.dll'', File ''data''),
      (''lib'', Dir [(''a.dll'', File ''a''), (''empty'', Dir [])]),
      (''update_script.bat'', File ''script''),
      (''update'', Dir [(''app.exe'', File ''new''), (''extra.dll'', File ''extra''),
                        (''lib'', Dir [(''b.dll'', File ''b'')])])]"

definition calm :: environment where
  "calm = \<lparr>task_listed = (\<lambda>k. False), taskkill_ok = True, denied = (\<lambda>op p. False)\<rparr>"

definition stubborn :: environment where
  "stubborn = \<lparr>task_listed = (\<lambda>k. True), taskkill_ok = False, denied = (\<lambda>op p. False)\<rparr>"






section \<open>Properties\<close>

subsection \<open>The method calls\<close>

lemma not7_not8: "\<not> IsWindows7OrGreater v \<Longrightarrow> \<not> IsWindows8OrGreater v \<and> \<not> IsWindows10OrGreater v"
  by (auto simp: IsWindows7OrGreater_def IsWindows8OrGreater_def IsWindows10OrGreater_def IsWindowsVersionOrGreater_def)

text \<open>
  C10. \<^verbatim>\<open>getPlatformVersion\<close> always succeeds with a string that begins with \<open>Windows \<close>, and
  on a system older than Windows 7 the string is exactly \<open>Windows \<close>, with no designator.
\<close>

theorem getPlatformVersion_windows:
  "(\<exists>designator. getPlatformVersion v = Success (EString (''Windows '' @ designator)))
   \<and> (\<not> IsWindows7OrGreater v \<longrightarrow> getPlatformVersion v = Success (EString ''Windows ''))"
  using not7_not8 [of v] by (auto simp: getPlatformVersion_def Let_def)

theorem getPlatformVersion_windows_witness:
  "\<not> IsWindows7OrGreater (6, 0) \<and> getPlatformVersion (6, 0) = Success (EString ''Windows '')"
proof -
  have h: "\<not> IsWindows7OrGreater (6, 0)"
    by (simp add: IsWindows7OrGreater_def IsWindowsVersionOrGreater_def)
  from getPlatformVersion_windows [of "(6, 0)"] h show ?thesis by blast
qed

lemma build_example: "build_of_product_version (wide ''1.2.3+45'' @ [0]) = Success (EString ''45'')"
  by code_simp

lemma find_from_None: "c \<notin> set xs \<Longrightarrow> find_from i c xs = None"
  by (induction xs arbitrary: i) auto

lemma find_from_last: "c \<notin> set xs \<Longrightarrow> find_from i c (xs @ [c]) = Some (i + length xs)"
  by (induction xs arbitrary: i) auto

lemma no_plus: "plus_sign \<notin> set (c_str buf) \<Longrightarrow> build_of_product_version buf = Error ''VersionError'' ''Invalid version format.''"
  by (simp add: build_of_product_version_def find_first_def find_from_None)

lemma plus_last: "c_str buf = xs @ [plus_sign] \<Longrightarrow> plus_sign \<notin> set xs \<Longrightarrow> build_of_product_version buf = Error ''VersionError'' ''Invalid version format.''"
  by (simp add: build_of_product_version_def find_first_def find_from_last)

lemma no_plus_example: "plus_sign \<notin> set (c_str (wide ''1.2.3'' @ [0]))"
  by code_simp

lemma usable_build: "usable r buf \<Longrightarrow> getCurrentVersion r = build_of_product_version buf"
  by (auto simp: usable_def getCurrentVersion_def sizeof_LANGANDCODEPAGE_def split: option.splits list.splits)

text \<open>
  C9. With the product version \<open>1.2.3+45\<close> \<^verbatim>\<open>getCurrentVersion\<close> returns \<open>45\<close>; with \<open>1.2.3\<close> it
  fails with \<open>VersionError\<close>, as it does whenever the version block, its translation table
  or the version string is missing, or the string has no \<open>+\<close> or nothing after it.
\<close>

theorem getCurrentVersion_build:
  "(usable r (wide ''1.2.3+45'' @ [0]) \<longrightarrow> getCurrentVersion r = Success (EString ''45''))
   \<and> (usable r (wide ''1.2.3'' @ [0]) \<longrightarrow> (\<exists>msg. getCurrentVersion r = Error ''VersionError'' msg))
   \<and> (verSize r = 0 \<or> \<not> info_ok r \<or> translation r = None \<or> translation r = Some []
        \<or> (\<exists>t ts. translation r = Some (t # ts) \<and> product_version r t = None)
        \<or> (\<exists>buf. usable r buf \<and> plus_sign \<notin> set (c_str buf))
        \<or> (\<exists>buf major. usable r buf \<and> c_str buf = major @ [plus_sign] \<and> plus_sign \<notin> set major)
      \<longrightarrow> (\<exists>msg. getCurrentVersion r = Error ''VersionError'' msg))"
proof (intro conjI impI)
  assume "usable r (wide ''1.2.3+45'' @ [0])"
  then show "getCurrentVersion r = Success (EString ''45'')"
    by (simp add: usable_build build_example)
next
  assume "usable r (wide ''1.2.3'' @ [0])"
  then show "\<exists>msg. getCurrentVersion r = Error ''VersionError'' msg"
    by (simp add: usable_build no_plus no_plus_example)
next
  assume "verSize r = 0 \<or> \<not> info_ok r \<or> translation r = None \<or> translation r = Some []
        \<or> (\<exists>t ts. translation r = Some (t # ts) \<and> product_version r t = None)
        \<or> (\<exists>buf. usable r buf \<and> plus_sign \<notin> set (c_str buf))
        \<or> (\<exists>buf major. usable r buf \<and> c_str buf = major @ [plus_sign] \<and> plus_sign \<notin> set major)"
  then show "\<exists>msg. getCurrentVersion r = Error ''VersionError'' msg"
  proof (elim disjE exE conjE)
    fix buf assume "usable r buf" "plus_sign \<notin> set (c_str buf)"
    then show ?thesis by (simp add: usable_build no_plus)
  next
    fix buf major
    assume "usable r buf" "c_str buf = major @ [plus_sign]" "plus_sign \<notin> set major"
    then show ?thesis by (simp add: usable_build plus_last)
  qed (simp_all add: getCurrentVersion_def sizeof_LANGANDCODEPAGE_def)
qed

lemma usable_resource_with: "usable (resource_with buf) buf"
  by (simp add: usable_def resource_with_def)

theorem getCurrentVersion_build_witness:
  "usable (resource_with (wide ''1.2.3+45'' @ [0])) (wide ''1.2.3+45'' @ [0])
   \<and> getCurrentVersion (resource_with (wide ''1.2.3+45'' @ [0])) = Success (EString ''45'')
   \<and> usable (resource_with (wide ''1.2.3'' @ [0])) (wide ''1.2.3'' @ [0])
   \<and> (\<exists>msg. getCurrentVersion (resource_with (wide ''1.2.3'' @ [0])) = Error ''VersionError'' msg)
   \<and> verSize (resource_with [] \<lparr>verSize := 0\<rparr>) = 0
   \<and> (\<exists>msg. getCurrentVersion (resource_with [] \<lparr>verSize := 0\<rparr>) = Error ''VersionError'' msg)"
  using getCurrentVersion_build [of "resource_with (wide ''1.2.3+45'' @ [0])"]
        getCurrentVersion_build [of "resource_with (wide ''1.2.3'' @ [0])"]
        getCurrentVersion_build [of "resource_with [] \<lparr>verSize := 0\<rparr>"]
        usable_resource_with
  by simp

lemma RestartApp_exit: "exit_code (RestartApp p) = Some 0"
  by (simp add: RestartApp_def ExitProcess_def Let_def)

lemma RestartApp_children:
  "children (RestartApp p) = (if create_process_ok p then children p @ [''cmd.exe /c update_script.bat''] else children p)"
  by (simp add: RestartApp_def ExitProcess_def runBatFile_def createBatFile_def Let_def)

lemma RestartApp_script:
  "script_file (RestartApp p) =
     (if script_open_ok p
      then Some (if script_write_ok p
                 then Whole (batScript (wide ''update'') (wide ''.'')
                               (take (MAX_PATH - 1) (c_str (module_file_name p))))
                 else Unfinished)
      else script_file p)"
  by (simp add: RestartApp_def ExitProcess_def runBatFile_def createBatFile_def Let_def)

lemma RestartApp_console_err:
  "console_err (RestartApp p) =
     console_err p
     @ (if script_open_ok p then [] else [''Error: Failed to create update batch script.''])
     @ (if create_process_ok p then []
        else [''Error: Failed to start update script. Error code: '' @ to_string (last_error p)])"
  by (simp add: RestartApp_def ExitProcess_def runBatFile_def createBatFile_def Let_def)

lemma RestartApp_console_out:
  "script_open_ok p \<Longrightarrow>
   ''Update batch script created successfully.'' \<in> set (console_out (RestartApp p))"
  by (simp add: RestartApp_def ExitProcess_def runBatFile_def createBatFile_def Let_def)

text \<open>
  C1, as stated, fails: when \<^verbatim>\<open>CreateProcess\<close> fails, \<^verbatim>\<open>restartApp\<close> still terminates the
  process with exit code 0 and no reply (so no \<open>SpawnError\<close>) reaches the caller.
\<close>

theorem spawn_failure_counterexample:
  "\<not> create_process_ok spawn_failure
   \<and> exit_code (fst (HandleMethodCall ''restartApp'' spawn_failure)) = Some 0
   \<and> snd (HandleMethodCall ''restartApp'' spawn_failure) = None"
  by (simp add: HandleMethodCall_def RestartApp_exit Let_def) (simp add: spawn_failure_def)

text \<open>
  C1, amended. \<^verbatim>\<open>restartApp\<close> always terminates the current process with exit code 0 and
  never replies, whether or not the child process was created; when the spawn fails no
  child exists and the failure, with its error code, is only written to the error stream.
\<close>

theorem restartApp_always_exits:
  "exit_code (fst (HandleMethodCall ''restartApp'' p)) = Some 0
   \<and> snd (HandleMethodCall ''restartApp'' p) = None
   \<and> (\<not> create_process_ok p \<longrightarrow>
        children (fst (HandleMethodCall ''restartApp'' p)) = children p
        \<and> last (console_err (fst (HandleMethodCall ''restartApp'' p)))
            = ''Error: Failed to start update script. Error code: '' @ to_string (last_error p))"
  by (simp add: HandleMethodCall_def RestartApp_exit RestartApp_children Let_def)
     (simp add: RestartApp_def ExitProcess_def runBatFile_def createBatFile_def Let_def)

theorem restartApp_always_exits_witness:
  "\<not> create_process_ok spawn_failure
   \<and> exit_code (fst (HandleMethodCall ''restartApp'' spawn_failure)) = Some 0
   \<and> snd (HandleMethodCall ''restartApp'' spawn_failure) = None
   \<and> children (fst (HandleMethodCall ''restartApp'' spawn_failure)) = []
   \<and> last (console_err (fst (HandleMethodCall ''restartApp'' spawn_failure)))
        = ''Error: Failed to start update script. Error code: 2''"
proof -
  have h: "\<not> create_process_ok spawn_failure" by (simp add: spawn_failure_def)
  have c: "children spawn_failure = []" by (simp add: spawn_failure_def idle_process_def)
  have e: "to_string (last_error spawn_failure) = ''2''" by (simp add: spawn_failure_def to_string.simps digit_def char_of_eq_iff)
  from restartApp_always_exits [of spawn_failure] h c e show ?thesis by simp
qed

text \<open>
  C7, as stated, fails, whether the script file cannot be opened or, on a full disk, is
  opened but not written: in both cases \<^verbatim>\<open>restartApp\<close> still spawns
  \<^verbatim>\<open>cmd.exe /c update_script.bat\<close>, terminates the process, and no reply (so no
  \<open>PersistenceError\<close>) reaches the caller; on the full disk it even prints the success line.
\<close>

theorem persistence_failure_counterexample:
  "\<not> script_open_ok no_access
   \<and> children (fst (HandleMethodCall ''restartApp'' no_access)) = [''cmd.exe /c update_script.bat'']
   \<and> exit_code (fst (HandleMethodCall ''restartApp'' no_access)) = Some 0
   \<and> snd (HandleMethodCall ''restartApp'' no_access) = None
   \<and> \<not> script_write_ok disk_full
   \<and> script_file (fst (HandleMethodCall ''restartApp'' disk_full)) = Some Unfinished
   \<and> console_err (fst (HandleMethodCall ''restartApp'' disk_full)) = []
   \<and> last (butlast (console_out (fst (HandleMethodCall ''restartApp'' disk_full))))
        = ''Update batch script created successfully.''
   \<and> children (fst (HandleMethodCall ''restartApp'' disk_full)) = [''cmd.exe /c update_script.bat'']
   \<and> exit_code (fst (HandleMethodCall ''restartApp'' disk_full)) = Some 0
   \<and> snd (HandleMethodCall ''restartApp'' disk_full) = None"
  by (simp add: HandleMethodCall_def RestartApp_exit RestartApp_children RestartApp_script
        RestartApp_console_err Let_def)
     (simp add: RestartApp_def ExitProcess_def runBatFile_def createBatFile_def Let_def
        disk_full_def no_access_def idle_process_def)

text \<open>
  C7, amended. Whenever the script cannot be written, \<^verbatim>\<open>restartApp\<close> reports nothing to the
  caller and the update goes on: the command interpreter is still spawned on
  \<^verbatim>\<open>update_script.bat\<close> (when the spawn succeeds), the process terminates with exit code 0
  and the caller gets no reply. When the file cannot be opened, the file on disk is left
  as it was and the failure is only written to the error stream. When the file is opened
  and the write fails, the file is left unfinished, the success line is printed and
  nothing about the script is written to the error stream.
\<close>

theorem restartApp_unwritable_script:
  "(\<not> script_open_ok p \<or> \<not> script_write_ok p \<longrightarrow>
      (create_process_ok p \<longrightarrow>
         children (fst (HandleMethodCall ''restartApp'' p))
           = children p @ [''cmd.exe /c update_script.bat''])
      \<and> exit_code (fst (HandleMethodCall ''restartApp'' p)) = Some 0
      \<and> snd (HandleMethodCall ''restartApp'' p) = None)
   \<and> (\<not> script_open_ok p \<longrightarrow>
      script_file (fst (HandleMethodCall ''restartApp'' p)) = script_file p
      \<and> ''Error: Failed to create update batch script.''
           \<in> set (console_err (fst (HandleMethodCall ''restartApp'' p))))
   \<and> (script_open_ok p \<and> \<not> script_write_ok p \<longrightarrow>
      script_file (fst (HandleMethodCall ''restartApp'' p)) = Some Unfinished
      \<and> ''Update batch script created successfully.''
           \<in> set (console_out (fst (HandleMethodCall ''restartApp'' p)))
      \<and> (create_process_ok p \<longrightarrow>
           console_err (fst (HandleMethodCall ''restartApp'' p)) = console_err p))"
  by (simp add: HandleMethodCall_def RestartApp_exit RestartApp_children RestartApp_script
        RestartApp_console_err RestartApp_console_out Let_def)

theorem restartApp_unwritable_script_witness:
  "\<not> script_open_ok no_access \<and> create_process_ok no_access
   \<and> script_file (fst (HandleMethodCall ''restartApp'' no_access)) = None
   \<and> children (fst (HandleMethodCall ''restartApp'' no_access)) = [''cmd.exe /c update_script.bat'']
   \<and> exit_code (fst (HandleMethodCall ''restartApp'' no_access)) = Some 0
   \<and> snd (HandleMethodCall ''restartApp'' no_access) = None
   \<and> script_open_ok disk_full \<and> \<not> script_write_ok disk_full \<and> create_process_ok disk_full
   \<and> script_file (fst (HandleMethodCall ''restartApp'' disk_full)) = Some Unfinished
   \<and> console_err (fst (HandleMethodCall ''restartApp'' disk_full)) = []
   \<and> children (fst (HandleMethodCall ''restartApp'' disk_full)) = [''cmd.exe /c update_script.bat'']
   \<and> exit_code (fst (HandleMethodCall ''restartApp'' disk_full)) = Some 0
   \<and> snd (HandleMethodCall ''restartApp'' disk_full) = None"
proof -
  have h: "\<not> script_open_ok no_access" "create_process_ok no_access"
          "script_file no_access = None" "children no_access = []"
    by (simp_all add: no_access_def idle_process_def)
  have g: "script_open_ok disk_full" "\<not> script_write_ok disk_full" "create_process_ok disk_full"
          "console_err disk_full = []" "children disk_full = []"
    by (simp_all add: disk_full_def idle_process_def)
  from restartApp_unwritable_script [of no_access] restartApp_unwritable_script [of disk_full] h g
  show ?thesis by simp
qed

subsection \<open>The script: control flow\<close>

lemma the_script_fields:
  "exeNameStr the_script = ''app.exe''"
  "updateDirStr the_script = ''update''"
  "destDirStr the_script = ''.''"
  "max_wait_attempts the_script = 5"
  "max_retry_attempts the_script = 3"
  "retry_delay_seconds the_script = 2"
  by (simp_all add: the_script_def batScript_def MAX_WAIT_ATTEMPTS_def MAX_RETRY_ATTEMPTS_def
        RETRY_DELAY_SECONDS_def) code_simp+

lemma restart_writes_the_script: "script_file (RestartApp idle_process) = Some (Whole the_script)"
  by (simp add: RestartApp_def ExitProcess_def runBatFile_def createBatFile_def Let_def
      idle_process_def the_script_def MAX_PATH_def c_str_def app_path_def wide_def backslash_def)

text \<open>
  C4 at an application that never exits: the script polls six times, pausing one second
  after each of the first five polls, before it runs \<^verbatim>\<open>taskkill\<close>; the limit of five is
  compared with the value \<^verbatim>\<open>COUNT\<close> had before the increment of the same pass.
\<close>

theorem wait_loop_six_polls:
  "commands (wait_loop the_script stubborn ((boot f)\<lparr>COUNT := 0\<rparr>)) =
     [Tasklist ''app.exe'', Timeout 1, Tasklist ''app.exe'', Timeout 1, Tasklist ''app.exe'', Timeout 1,
      Tasklist ''app.exe'', Timeout 1, Tasklist ''app.exe'', Timeout 1, Tasklist ''app.exe'',
      Taskkill ''app.exe'' False]"
  by (simp add: wait_loop.simps the_script_fields stubborn_def boot_def exec_def commands_def Let_def)

lemma batScript_consts:
  "max_wait_attempts (batScript u d e) = 5"
  "max_retry_attempts (batScript u d e) = 3"
  "retry_delay_seconds (batScript u d e) = 2"
  by (simp_all add: batScript_def MAX_WAIT_ATTEMPTS_def MAX_RETRY_ATTEMPTS_def RETRY_DELAY_SECONDS_def)

text \<open>
  C3. Step 3 makes one, two or three copy attempts, with a pause of
  \<open>RETRY_DELAY_SECONDS\<close> between consecutive attempts and none after the last; an attempt
  that succeeds is followed by the removal of the backup, and the failure of the third
  attempt by the restore of step 4, never by another attempt.
\<close>

theorem apply_attempts:
  "new_commands m (apply_update (batScript u d e) env m) =
     (let s = batScript u d e;
          X = XcopyUpdate (updateDirStr s) (destDirStr s);
          T = Timeout RETRY_DELAY_SECONDS;
          r1 = xcopy_update s (denied env (ApplyAttempt 1)) (fs m);
          r2 = xcopy_update s (denied env (ApplyAttempt 2)) (fst r1);
          r3 = xcopy_update s (denied env (ApplyAttempt 3)) (fst r2)
      in if snd r1 then [X, RmdirBackup]
         else if snd r2 then [X, T, X, RmdirBackup]
         else if snd r3 then [X, T, X, T, X, RmdirBackup]
         else [X, T, X, T, X, XcopyRestore, RmdirBackup])"
  by (simp add: apply_update_def retry_copy.simps [of "batScript u d e"] batScript_consts
        new_commands_def commands_def exec_def step4_def Let_def RETRY_DELAY_SECONDS_def
        numeral_2_eq_2 numeral_3_eq_3)

lemma commands_exec: "commands (exec ph c f m) = commands m @ [c]"
  by (simp add: commands_def exec_def)

lemma commands_update [simp]:
  "commands (m\<lparr>COUNT := a\<rparr>) = commands m"
  "commands (m\<lparr>RETRY := b\<rparr>) = commands m"
  "commands (m\<lparr>ERRORLEVEL := c\<rparr>) = commands m"
  "commands (m\<lparr>polls := d\<rparr>) = commands m"
  by (simp_all add: commands_def)

lemma wait_loop_unfold:
  "wait_loop s env m =
     (if task_listed env (polls m)
      then (if max_wait_attempts s \<le> COUNT m then force_close s env m
            else wait_loop s env (pause s env m))
      else poll s env m)"
  by (subst wait_loop.simps) (simp add: Let_def exec_def poll_def pause_def force_close_def)

lemma wait_loop_induct2:
  assumes "\<And>s env m. (task_listed env (polls m) \<Longrightarrow> \<not> max_wait_attempts s \<le> COUNT m
              \<Longrightarrow> P s env (pause s env m)) \<Longrightarrow> P s env m"
  shows "P s env m"
proof (induction s env m rule: wait_loop.induct)
  case (1 s env m)
  show ?case
  proof (rule assms)
    assume "task_listed env (polls m)" "\<not> max_wait_attempts s \<le> COUNT m"
    then show "P s env (pause s env m)"
      using "1.IH" [OF refl refl _ refl refl] by (simp add: pause_def poll_def exec_def)
  qed
qed

lemma retry_copy_unfold:
  "retry_copy s env m =
     (if ERRORLEVEL (attempt s env m) = 0
      then (exec APPLY RmdirBackup (rmdir_tree ''backup'' (fs (attempt s env m))) (attempt s env m), True)
      else if RETRY m + 1 < max_retry_attempts s then retry_copy s env (delay s env m)
      else (attempt s env m, False))"
  by (subst retry_copy.simps) (simp add: Let_def exec_def attempt_def delay_def)

lemma retry_copy_induct2:
  assumes "\<And>s env m. (ERRORLEVEL (attempt s env m) \<noteq> 0 \<Longrightarrow> RETRY m + 1 < max_retry_attempts s
              \<Longrightarrow> P s env (delay s env m)) \<Longrightarrow> P s env m"
  shows "P s env m"
proof (induction s env m rule: retry_copy.induct)
  case (1 s env m)
  show ?case
  proof (rule assms)
    assume "ERRORLEVEL (attempt s env m) \<noteq> 0" "RETRY m + 1 < max_retry_attempts s"
    then show "P s env (delay s env m)"
      using "1.IH" [OF refl refl refl] by (simp add: delay_def attempt_def exec_def)
  qed
qed

lemma grows_refl: "grows m m"
  by (simp add: grows_def)

lemma grows_trans: "grows a b \<Longrightarrow> grows b c \<Longrightarrow> grows a c"
  by (auto simp: grows_def)

lemma grows_exec: "quiet c \<Longrightarrow> grows m (exec ph c f m)"
  by (simp add: grows_def commands_exec)

lemma grows_field:
  "grows m m' \<Longrightarrow> grows m (m'\<lparr>COUNT := a\<rparr>)"
  "grows m m' \<Longrightarrow> grows m (m'\<lparr>RETRY := b\<rparr>)"
  "grows m m' \<Longrightarrow> grows m (m'\<lparr>ERRORLEVEL := c\<rparr>)"
  "grows m m' \<Longrightarrow> grows m (m'\<lparr>polls := d\<rparr>)"
  by (simp_all add: grows_def)

lemma quiet_simps [simp]:
  "quiet (Tasklist n)" "quiet (Taskkill n b)" "quiet (Timeout k)" "quiet RmdirBackup"
  "quiet MkdirBackup" "quiet (CopyToBackup F)" "quiet (XcopyToBackup D)" "quiet (XcopyUpdate u d)"
  "quiet XcopyRestore" "quiet DelScript" "\<not> quiet (Start e)" "\<not> quiet (RmdirUpdate u)"
  by (simp_all add: quiet_def is_start_def is_rmdir_update_def)

lemma grows_poll: "grows m (poll s env m)"
  unfolding poll_def by (intro grows_field grows_exec) simp

lemma grows_pause: "grows m (pause s env m)"
  unfolding pause_def
  by (rule grows_trans [OF grows_field(1) [OF grows_poll] grows_exec]) simp

lemma grows_force_close: "grows m (force_close s env m)"
  unfolding force_close_def
  by (rule grows_trans [OF grows_field(1) [OF grows_poll] grows_exec]) simp

lemma grows_wait_loop: "grows m (wait_loop s env m)"
proof (induction s env m rule: wait_loop_induct2)
  case (1 s env m)
  show ?case
  proof (cases "task_listed env (polls m)")
    case False
    then show ?thesis by (subst wait_loop_unfold) (simp add: grows_poll)
  next
    case listed: True
    show ?thesis
    proof (cases "max_wait_attempts s \<le> COUNT m")
      case True
      with listed show ?thesis by (subst wait_loop_unfold) (simp add: grows_force_close)
    next
      case False
      with listed have "grows (pause s env m) (wait_loop s env (pause s env m))" by (rule 1)
      with listed False show ?thesis
        by (subst wait_loop_unfold) (auto intro: grows_trans [OF grows_pause])
    qed
  qed
qed

lemma grows_backup_files: "grows m (backup_files env ns m)"
proof (induction ns arbitrary: m)
  case Nil
  show ?case by (simp add: grows_refl)
next
  case (Cons F ns)
  show ?case
    by (auto intro: Cons.IH grows_trans [OF grows_exec Cons.IH])
qed

lemma grows_backup_dirs: "grows m (backup_dirs env ns m)"
proof (induction ns arbitrary: m)
  case Nil
  show ?case by (simp add: grows_refl)
next
  case (Cons D ns)
  show ?case
    by (auto intro: Cons.IH grows_trans [OF grows_exec Cons.IH])
qed

lemma grows_step2: "grows m (step2 env m)"
  unfolding step2_def Let_def
  by (intro grows_trans [OF _ grows_backup_dirs] grows_trans [OF _ grows_backup_files]
        grows_trans [OF _ grows_exec]) (auto intro: grows_refl grows_exec)

lemma grows_attempt: "grows m (attempt s env m)"
  unfolding attempt_def
  by (intro grows_field grows_trans [OF grows_field(2) [OF grows_refl] grows_exec]) simp

lemma grows_delay: "grows m (delay s env m)"
  unfolding delay_def by (rule grows_trans [OF grows_attempt grows_exec]) simp

lemma grows_retry_copy: "grows m (fst (retry_copy s env m))"
proof (induction s env m rule: retry_copy_induct2)
  case (1 s env m)
  show ?case
  proof (cases "ERRORLEVEL (attempt s env m) = 0")
    case True
    then show ?thesis
      by (subst retry_copy_unfold) (simp add: grows_trans [OF grows_attempt grows_exec])
  next
    case failed: False
    show ?thesis
    proof (cases "RETRY m + 1 < max_retry_attempts s")
      case True
      with failed have "grows (delay s env m) (fst (retry_copy s env (delay s env m)))" by (rule 1)
      with failed True show ?thesis
        by (subst retry_copy_unfold) (auto intro: grows_trans [OF grows_delay])
    next
      case False
      with failed show ?thesis by (subst retry_copy_unfold) (simp add: grows_attempt)
    qed
  qed
qed

lemma grows_step4: "grows m (step4 env m)"
  unfolding step4_def Let_def
  by (intro grows_trans [OF grows_field(3) [OF grows_exec] grows_exec]) simp_all

lemma grows_apply_update: "grows m (apply_update s env m)"
  unfolding apply_update_def Let_def
  by (auto intro: grows_trans [OF grows_field(2) [OF grows_refl] grows_retry_copy]
        grows_trans [OF grows_trans [OF grows_field(2) [OF grows_refl] grows_retry_copy] grows_step4])

lemma commands_cleanup:
  "commands (cleanup s m) =
     commands m @ [RmdirUpdate (updateDirStr s), Start (exePathStr s), Timeout 1, DelScript]"
  by (simp add: cleanup_def Let_def commands_exec)

lemma grows_before_cleanup:
  "grows (boot f) (apply_update s env (step2 env (wait_loop s env ((boot f)\<lparr>COUNT := 0\<rparr>))))"
  by (intro grows_trans [OF _ grows_apply_update] grows_trans [OF _ grows_step2]
        grows_trans [OF _ grows_wait_loop] grows_field grows_refl)

lemma not_dir_rmdir_tree: "\<not> is_dir (map_of (rmdir_tree n f) n)"
  by (simp add: rmdir_tree_def AList.delete_conv is_dir_def)

lemma map_of_del_file: "map_of (del_file n f) k = (if k = n \<and> is_file (map_of f n) then None else map_of f k)"
  by (simp add: del_file_def AList.delete_conv)

lemma fs_exec [simp]: "fs (exec ph c f m) = f"
  by (simp add: exec_def)

text \<open>
  C2. Every run of the script ends with the four commands of step 5: the staging directory
  is removed and the application started exactly once, whatever the system answered to
  the polls and the copies; afterwards no staging directory exists.
\<close>

theorem cleanup_relaunches_once:
  "filter is_rmdir_update (commands (run_script s env f)) = [RmdirUpdate (updateDirStr s)]
   \<and> filter is_start (commands (run_script s env f)) = [Start (exePathStr s)]
   \<and> (\<exists>before. list_all quiet before \<and> commands (run_script s env f) =
         before @ [RmdirUpdate (updateDirStr s), Start (exePathStr s), Timeout 1, DelScript])
   \<and> \<not> is_dir (map_of (fs (run_script s env f)) (updateDirStr s))"
proof -
  obtain ws where ws: "commands (apply_update s env (step2 env (wait_loop s env ((boot f)\<lparr>COUNT := 0\<rparr>)))) = ws"
     "list_all quiet ws"
    using grows_before_cleanup [of f s env] by (auto simp: grows_def commands_def boot_def)
  have cs: "commands (run_script s env f) =
      ws @ [RmdirUpdate (updateDirStr s), Start (exePathStr s), Timeout 1, DelScript]"
    by (simp add: run_script_def commands_cleanup ws)
  have q: "filter is_rmdir_update ws = []" "filter is_start ws = []"
    using ws(2) by (auto simp: quiet_def list_all_iff filter_empty_conv)
  have "\<not> is_dir (map_of (fs (run_script s env f)) (updateDirStr s))"
    using not_dir_rmdir_tree [of "updateDirStr s"]
    by (auto simp: run_script_def cleanup_def Let_def map_of_del_file is_dir_def)
  with cs q ws(2) show ?thesis
    by (simp add: is_start_def is_rmdir_update_def)
qed

text \<open>In general the wait loop polls at most once more than the limit written into the script.\<close>

lemma polls_poll:
  "length (filter is_poll (commands (poll s env m))) = length (filter is_poll (commands m)) + 1"
  by (simp add: poll_def commands_exec is_poll_def)

lemma polls_pause:
  "length (filter is_poll (commands (pause s env m))) = length (filter is_poll (commands m)) + 1"
  by (simp add: pause_def commands_exec polls_poll) (simp add: is_poll_def)

lemma polls_force_close:
  "length (filter is_poll (commands (force_close s env m))) = length (filter is_poll (commands m)) + 1"
  by (simp add: force_close_def commands_exec polls_poll) (simp add: is_poll_def)

lemma COUNT_pause: "COUNT (pause s env m) = COUNT m + 1"
  by (simp add: pause_def poll_def exec_def)

lemma wait_loop_polls_bound:
  "COUNT m \<le> max_wait_attempts s \<Longrightarrow>
   length (filter is_poll (commands (wait_loop s env m)))
     \<le> length (filter is_poll (commands m)) + (max_wait_attempts s + 1 - COUNT m)"
proof (induction s env m rule: wait_loop_induct2)
  case (1 s env m)
  show ?case
  proof (cases "task_listed env (polls m)")
    case False
    with "1.prems" show ?thesis by (subst wait_loop_unfold) (simp add: polls_poll)
  next
    case listed: True
    show ?thesis
    proof (cases "max_wait_attempts s \<le> COUNT m")
      case True
      with listed "1.prems" show ?thesis by (subst wait_loop_unfold) (simp add: polls_force_close)
    next
      case False
      with listed have "length (filter is_poll (commands (wait_loop s env (pause s env m))))
        \<le> length (filter is_poll (commands (pause s env m)))
            + (max_wait_attempts s + 1 - COUNT (pause s env m))"
        by (intro "1.IH") (simp_all add: COUNT_pause)
      with listed False show ?thesis
        by (subst wait_loop_unfold) (simp add: polls_pause COUNT_pause)
    qed
  qed
qed

lemma wait_loop_at_most_six_polls:
  "length (filter is_poll (commands (wait_loop (batScript u d e) env ((boot f)\<lparr>COUNT := 0\<rparr>)))) \<le> 6"
  using wait_loop_polls_bound [of "(boot f)\<lparr>COUNT := 0\<rparr>" "batScript u d e" env]
  by (simp add: batScript_consts boot_def commands_def)

subsection \<open>The file system: copying\<close>

lemma is_dir_simps [simp]:
  "is_dir None = False" "is_dir (Some (File b)) = False" "is_dir (Some (Dir es)) = True"
  by (simp_all add: is_dir_def)

lemma is_file_simps [simp]:
  "is_file None = False" "is_file (Some (File b)) = True" "is_file (Some (Dir es)) = False"
  by (simp_all add: is_file_def)

lemma subdir_simps [simp]:
  "map_of f n = None \<Longrightarrow> subdir f n = []"
  "map_of f n = Some (File b) \<Longrightarrow> subdir f n = []"
  "map_of f n = Some (Dir es) \<Longrightarrow> subdir f n = es"
  by (simp_all add: subdir_def)

lemma update_absent: "k \<notin> fst ` set al \<Longrightarrow> AList.update k v al = al @ [(k, v)]"
  by (induction al) auto

lemma map_of_absent: "k \<notin> fst ` set al \<Longrightarrow> map_of al k = None"
  by (simp add: map_of_eq_None_iff)


lemma copy_entries_keeps_dir:
  "is_dir (map_of dst k) \<Longrightarrow> is_dir (map_of (fst (copy_entries c den pre src dst)) k)"
proof (induction c den pre src dst rule: copy_entries.induct)
  case (1 continue den pre dst)
  then show ?case by simp
next
  case (2 continue den pre n b rest dst)
  then show ?case by (cases "k = n") (simp_all add: update_conv')
next
  case (3 continue den pre n es rest dst)
  then show ?case by (cases "k = n") (simp_all add: Let_def update_conv')
qed

lemma copy_entries_keeps_file:
  "is_file (map_of dst k) \<Longrightarrow> is_file (map_of (fst (copy_entries c den pre src dst)) k)"
proof (induction c den pre src dst rule: copy_entries.induct)
  case (1 continue den pre dst)
  then show ?case by simp
next
  case (2 continue den pre n b rest dst)
  then show ?case by (cases "k = n") (simp_all add: update_conv')
next
  case (3 continue den pre n es rest dst)
  then show ?case by (cases "k = n") (simp_all add: Let_def update_conv')
qed

lemma wf_update:
  "wf_node (Dir al) \<Longrightarrow> wf_node v \<Longrightarrow> wf_node (Dir (AList.update k v al))"
proof (induction al)
  case Nil
  then show ?case by simp
next
  case (Cons a al)
  then show ?case by (cases a) (auto simp: dom_update distinct_update)
qed

lemma wf_subdir: "wf_node (Dir f) \<Longrightarrow> wf_node (Dir (subdir f n))"
proof (cases "map_of f n")
  case None
  then show ?thesis by simp
next
  case (Some v)
  assume wf: "wf_node (Dir f)"
  from Some have "(n, v) \<in> set f" by (rule map_of_SomeD)
  with wf have "wf_node v" by auto
  with Some show ?thesis by (cases v) simp_all
qed

lemma wf_copy_entries:
  "wf_node (Dir dst) \<Longrightarrow> wf_node (Dir (fst (copy_entries c den pre src dst)))"
proof (induction c den pre src dst rule: copy_entries.induct)
  case (1 continue den pre dst)
  then show ?case by simp
next
  case (2 continue den pre n b rest dst)
  have "wf_node (File b)" by simp
  with "2.prems" have "wf_node (Dir (AList.update n (File b) dst))" by (rule wf_update)
  with 2 show ?case by (simp del: wf_node.simps)
next
  case (3 continue den pre n es rest dst)
  show ?case
  proof (cases "is_file (map_of dst n)")
    case True
    with 3 show ?thesis by (simp del: wf_node.simps)
  next
    case False
    let ?r = "copy_entries continue den (pre @ [n]) es (subdir dst n)"
    have "wf_node (Dir (subdir dst n))" using "3.prems" by (rule wf_subdir)
    with False have "wf_node (Dir (fst ?r))" by (rule "3.IH"(2))
    with "3.prems" have w: "wf_node (Dir (AList.update n (Dir (fst ?r)) dst))" by (rule wf_update)
    show ?thesis
    proof (cases "snd ?r")
      case True
      with False w "3.IH"(3) [OF False refl refl True] show ?thesis
        by (simp add: Let_def del: wf_node.simps)
    next
      case nok: False
      show ?thesis
      proof (cases continue)
        case True
        with False nok w "3.IH"(4) [OF False refl refl nok] show ?thesis
          by (simp add: Let_def del: wf_node.simps)
      next
        case False
        with \<open>\<not> is_file (map_of dst n)\<close> nok w show ?thesis
          by (simp add: Let_def del: wf_node.simps)
      qed
    qed
  qed
qed

lemma copy_file_skip:
  "den (pre @ [n]) \<or> is_dir (map_of dst n) \<Longrightarrow>
   copy_entries c den pre ((n, File b) # rest) dst =
     (if c then (fst (copy_entries c den pre rest dst), False) else (dst, False))"
  by simp

lemma copy_file_copy:
  "\<not> den (pre @ [n]) \<Longrightarrow> \<not> is_dir (map_of dst n) \<Longrightarrow>
   copy_entries c den pre ((n, File b) # rest) dst =
     copy_entries c den pre rest (AList.update n (File b) dst)"
  by simp

lemma copy_dir_skip:
  "is_file (map_of dst n) \<Longrightarrow>
   copy_entries c den pre ((n, Dir es) # rest) dst =
     (if c then (fst (copy_entries c den pre rest dst), False) else (dst, False))"
  by simp


lemma copy_entries_induct2 [case_names nil file_skip file_copy dir_skip dir_copy]:
  assumes "\<And>c den pre dst. P c den pre [] dst"
    and "\<And>c den pre n b rest dst. den (pre @ [n]) \<or> is_dir (map_of dst n) \<Longrightarrow>
            (c \<Longrightarrow> P c den pre rest dst) \<Longrightarrow> P c den pre ((n, File b) # rest) dst"
    and "\<And>c den pre n b rest dst. \<not> den (pre @ [n]) \<Longrightarrow> \<not> is_dir (map_of dst n) \<Longrightarrow>
            P c den pre rest (AList.update n (File b) dst) \<Longrightarrow> P c den pre ((n, File b) # rest) dst"
    and "\<And>c den pre n es rest dst. is_file (map_of dst n) \<Longrightarrow>
            (c \<Longrightarrow> P c den pre rest dst) \<Longrightarrow> P c den pre ((n, Dir es) # rest) dst"
    and "\<And>c den pre n es rest dst. \<not> is_file (map_of dst n) \<Longrightarrow>
            P c den (pre @ [n]) es (subdir dst n) \<Longrightarrow>
            (snd (copy_entries c den (pre @ [n]) es (subdir dst n)) \<or> c \<Longrightarrow>
               P c den pre rest
                 (AList.update n (Dir (fst (copy_entries c den (pre @ [n]) es (subdir dst n)))) dst)) \<Longrightarrow>
            P c den pre ((n, Dir es) # rest) dst"
  shows "P c den pre src dst"
proof (induction c den pre src dst rule: copy_entries.induct)
  case (1 continue den pre dst)
  show ?case by (rule assms(1))
next
  case (2 continue den pre n b rest dst)
  show ?case
  proof (cases "den (pre @ [n]) \<or> is_dir (map_of dst n)")
    case True
    then show ?thesis using "2.IH"(1) by (intro assms(2)) blast+
  next
    case False
    then show ?thesis using "2.IH"(2) by (intro assms(3)) blast+
  qed
next
  case (3 continue den pre n es rest dst)
  show ?case
  proof (cases "is_file (map_of dst n)")
    case True
    then show ?thesis using "3.IH"(1) by (intro assms(4)) blast+
  next
    case False
    show ?thesis
    proof (rule assms(5) [OF False])
      show "P continue den (pre @ [n]) es (subdir dst n)" using False by (rule "3.IH"(2))
    next
      assume "snd (copy_entries continue den (pre @ [n]) es (subdir dst n)) \<or> continue"
      then show "P continue den pre rest
         (AList.update n (Dir (fst (copy_entries continue den (pre @ [n]) es (subdir dst n)))) dst)"
        using "3.IH"(3) [OF False refl refl] "3.IH"(4) [OF False refl refl] by blast
    qed
  qed
qed


lemma copy_fresh_gen:
  "(\<And>p. \<not> den p) \<Longrightarrow> wf_node (Dir src) \<Longrightarrow> fst ` set src \<inter> fst ` set dst = {} \<Longrightarrow>
   copy_entries c den pre src dst = (dst @ src, True)"
proof (induction c den pre src dst rule: copy_entries_induct2)
  case (nil c den pre dst)
  show ?case by simp
next
  case (file_skip c den pre n b rest dst)
  from file_skip.prems(3) have "n \<notin> fst ` set dst" by auto
  then have "map_of dst n = None" by (rule map_of_absent)
  with file_skip.hyps file_skip.prems(1) show ?case by simp
next
  case (file_copy c den pre n b rest dst)
  from file_copy.prems(3) have n: "n \<notin> fst ` set dst" by auto
  have "copy_entries c den pre rest (AList.update n (File b) dst)
          = (AList.update n (File b) dst @ rest, True)"
    using file_copy.prems n by (intro file_copy.IH) (auto simp: dom_update)
  with n file_copy.hyps show ?case
    by (simp add: update_absent)
next
  case (dir_skip c den pre n es rest dst)
  from dir_skip.prems(3) have "n \<notin> fst ` set dst" by auto
  then have "map_of dst n = None" by (rule map_of_absent)
  with dir_skip.hyps show ?case by simp
next
  case (dir_copy c den pre n es rest dst)
  from dir_copy.prems(3) have n: "n \<notin> fst ` set dst" by auto
  then have none: "map_of dst n = None" by (rule map_of_absent)
  have inner: "copy_entries c den (pre @ [n]) es (subdir dst n) = (es, True)"
    using dir_copy.IH(1) [OF dir_copy.prems(1)] dir_copy.prems(2) none by simp
  have "copy_entries c den pre rest (AList.update n (Dir es) dst)
          = (AList.update n (Dir es) dst @ rest, True)"
    using dir_copy.IH(2) [OF _ dir_copy.prems(1)] dir_copy.prems(2,3) n inner
    by (auto simp: dom_update)
  with n inner dir_copy.hyps show ?case
    by (simp add: update_absent Let_def)
qed

lemma copy_fresh:
  "(\<And>p. \<not> den p) \<Longrightarrow> wf_node (Dir src) \<Longrightarrow> copy_entries c den pre src [] = (src, True)"
  using copy_fresh_gen [of den src "[]" c pre] by simp



lemma lookup_Nil_entries [simp]: "lookup [] p = None"
proof (cases p)
  case Nil
  then show ?thesis by simp
next
  case (Cons k q)
  then show ?thesis by (cases q) simp_all
qed






lemma lookup_Cons_dir_top: "lookup ((n, Dir es) # rest) [n] = Some (Dir es)"
  by simp






lemma map_of_rmdir_tree:
  "map_of (rmdir_tree n f) k = (if k = n \<and> is_dir (map_of f n) then None else map_of f k)"
  by (simp add: rmdir_tree_def delete_conv')

lemma map_of_mkdir:
  "map_of (mkdir n f) k = (if k = n \<and> map_of f n = None then Some (Dir []) else map_of f k)"
  by (simp add: mkdir_def update_conv')

lemma map_of_copy_into:
  "map_of (fst (copy_into c den d src f)) k =
     (if k = d \<and> is_dir (map_of f d)
      then Some (Dir (fst (copy_entries c den [d] src (subdir f d))))
      else map_of f k)"
  by (simp add: copy_into_def Let_def update_conv')

lemma subdir_copy_into:
  "subdir (fst (copy_into c den d src f)) d =
     (if is_dir (map_of f d) then fst (copy_entries c den [d] src (subdir f d)) else subdir f d)"
  by (simp add: copy_into_def Let_def subdir_def update_conv')

lemma in_file_names: "distinct (map fst f) \<Longrightarrow> n \<in> set (file_names f) \<longleftrightarrow> is_file (map_of f n)"
proof
  assume "n \<in> set (file_names f)"
  then obtain v where v: "(n, v) \<in> set f" "is_file (Some v)" by (auto simp: file_names_def)
  moreover assume "distinct (map fst f)"
  ultimately have "map_of f n = Some v" by simp
  with v show "is_file (map_of f n)" by simp
next
  assume "is_file (map_of f n)"
  then obtain b where "map_of f n = Some (File b)"
    by (cases "map_of f n") (auto simp: is_file_def split: node.splits)
  then have "(n, File b) \<in> set f" by (rule map_of_SomeD)
  then show "n \<in> set (file_names f)" by (force simp: file_names_def)
qed

lemma in_dir_names: "distinct (map fst f) \<Longrightarrow> n \<in> set (dir_names f) \<longleftrightarrow> is_dir (map_of f n)"
proof
  assume "n \<in> set (dir_names f)"
  then obtain v where v: "(n, v) \<in> set f" "is_dir (Some v)" by (auto simp: dir_names_def)
  moreover assume "distinct (map fst f)"
  ultimately have "map_of f n = Some v" by simp
  with v show "is_dir (map_of f n)" by simp
next
  assume "is_dir (map_of f n)"
  then obtain es where "map_of f n = Some (Dir es)"
    by (cases "map_of f n") (auto simp: is_dir_def split: node.splits)
  then have "(n, Dir es) \<in> set f" by (rule map_of_SomeD)
  then show "n \<in> set (dir_names f)" by (force simp: dir_names_def)
qed

lemma distinct_dir_names: "distinct (map fst f) \<Longrightarrow> distinct (dir_names f)"
  unfolding dir_names_def by (rule distinct_map_filter)

text \<open>The two copy commands of step 2: what they leave alone.\<close>

lemma copy_to_backup_other:
  "k \<noteq> ''backup'' \<Longrightarrow> map_of (copy_to_backup env F f) k = map_of f k"
  by (simp add: copy_to_backup_def map_of_copy_into split: option.splits node.splits)

lemma xcopy_to_backup_other:
  "k \<noteq> ''backup'' \<Longrightarrow> map_of (xcopy_to_backup env D f) k = map_of f k"
  by (simp add: xcopy_to_backup_def map_of_copy_into split: option.splits node.splits)

lemma copy_to_backup_exists: "backup_exists (copy_to_backup env F f) = backup_exists f"
  by (simp add: copy_to_backup_def backup_exists_def map_of_copy_into split: option.splits node.splits)

lemma xcopy_to_backup_exists: "backup_exists (xcopy_to_backup env D f) = backup_exists f"
  by (simp add: xcopy_to_backup_def backup_exists_def map_of_copy_into split: option.splits node.splits)

lemma backup_of_copy_to_backup:
  "backup_of (copy_to_backup env F f) =
     (case map_of f F of
        Some (File b) \<Rightarrow> if backup_exists f
           then fst (copy_entries False (denied env BackupCopy) [''backup''] [(F, File b)] (backup_of f))
           else backup_of f
      | _ \<Rightarrow> backup_of f)"
  by (simp add: copy_to_backup_def backup_exists_def backup_of_def subdir_copy_into
      split: option.splits node.splits)

lemma backup_of_xcopy_to_backup:
  "backup_of (xcopy_to_backup env D f) =
     (case map_of f D of
        Some (Dir es) \<Rightarrow> if backup_exists f
           then fst (copy_entries True (denied env BackupCopy) [''backup''] [(D, Dir es)] (backup_of f))
           else backup_of f
      | _ \<Rightarrow> backup_of f)"
  by (simp add: xcopy_to_backup_def backup_exists_def backup_of_def subdir_copy_into
      split: option.splits node.splits)

text \<open>The loops as folds over the directory.\<close>

lemma fs_backup_files:
  "fs (backup_files env ns m) =
     fold (\<lambda>F f. if F \<noteq> ''backup'' \<and> F \<noteq> ''update_script.bat'' then copy_to_backup env F f else f) ns (fs m)"
  by (induction ns arbitrary: m) simp_all

lemma fs_backup_dirs:
  "fs (backup_dirs env ns m) =
     fold (\<lambda>D f. if D \<noteq> ''backup'' \<and> D \<noteq> ''update'' then xcopy_to_backup env D f else f) ns (fs m)"
  by (induction ns arbitrary: m) simp_all

lemma copy_to_backup_exact:
  assumes "\<And>p. \<not> denied env BackupCopy p" "backup_exists f" "\<not> is_dir (map_of (backup_of f) F)"
  shows "map_of (backup_of (copy_to_backup env F f)) n =
           (if n = F \<and> is_file (map_of f F) then map_of f F else map_of (backup_of f) n)"
proof (cases "map_of f F")
  case None
  then show ?thesis by (simp add: backup_of_copy_to_backup)
next
  case (Some v)
  show ?thesis
  proof (cases v)
    case (File b)
    with Some assms show ?thesis by (simp add: backup_of_copy_to_backup update_conv')
  next
    case (Dir es)
    with Some show ?thesis by (simp add: backup_of_copy_to_backup)
  qed
qed

lemma files_fold_exact:
  assumes nd: "\<And>p. \<not> denied env BackupCopy p"
  defines "step \<equiv> (\<lambda>F f. if F \<noteq> ''backup'' \<and> F \<noteq> ''update_script.bat'' then copy_to_backup env F f else f)"
  shows "backup_exists f \<Longrightarrow> (\<And>n. \<not> is_dir (map_of (backup_of f) n)) \<Longrightarrow>
     backup_exists (fold step ns f)
     \<and> (\<forall>n. \<not> is_dir (map_of (backup_of (fold step ns f)) n))
     \<and> (\<forall>k. k \<noteq> ''backup'' \<longrightarrow> map_of (fold step ns f) k = map_of f k)
     \<and> (\<forall>n. map_of (backup_of (fold step ns f)) n =
           (if n \<in> set ns \<and> n \<noteq> ''backup'' \<and> n \<noteq> ''update_script.bat'' \<and> is_file (map_of f n)
            then map_of f n else map_of (backup_of f) n))"
proof (induction ns arbitrary: f)
  case Nil
  then show ?case by simp
next
  case (Cons F ns)
  let ?f1 = "step F f"
  have ex: "backup_exists ?f1" using Cons.prems(1) by (simp add: step_def copy_to_backup_exists)
  have other: "k \<noteq> ''backup'' \<Longrightarrow> map_of ?f1 k = map_of f k" for k
    by (simp add: step_def copy_to_backup_other)
  have B1: "map_of (backup_of ?f1) n =
      (if n = F \<and> F \<noteq> ''backup'' \<and> F \<noteq> ''update_script.bat'' \<and> is_file (map_of f F)
       then map_of f F else map_of (backup_of f) n)" for n
    using copy_to_backup_exact [OF nd Cons.prems(1) Cons.prems(2), of F n] by (auto simp: step_def)
  have nd1: "\<not> is_dir (map_of (backup_of ?f1) n)" for n
    using Cons.prems(2) [of n] by (auto simp: B1 is_file_def is_dir_def split: option.splits node.splits)
  from Cons.IH [OF ex nd1]
  have IH: "backup_exists (fold step ns ?f1)"
    "\<And>n. \<not> is_dir (map_of (backup_of (fold step ns ?f1)) n)"
    "\<And>k. k \<noteq> ''backup'' \<Longrightarrow> map_of (fold step ns ?f1) k = map_of ?f1 k"
    "\<And>n. map_of (backup_of (fold step ns ?f1)) n =
           (if n \<in> set ns \<and> n \<noteq> ''backup'' \<and> n \<noteq> ''update_script.bat'' \<and> is_file (map_of ?f1 n)
            then map_of ?f1 n else map_of (backup_of ?f1) n)"
    by blast+
  show ?case
  proof (intro conjI allI impI)
    show "backup_exists (fold step (F # ns) f)" using IH(1) by simp
    show "\<not> is_dir (map_of (backup_of (fold step (F # ns) f)) n)" for n using IH(2) by simp
    show "map_of (fold step (F # ns) f) k = map_of f k" if "k \<noteq> ''backup''" for k
      using IH(3) [OF that] other [OF that] by simp
    show "map_of (backup_of (fold step (F # ns) f)) n =
           (if n \<in> set (F # ns) \<and> n \<noteq> ''backup'' \<and> n \<noteq> ''update_script.bat'' \<and> is_file (map_of f n)
            then map_of f n else map_of (backup_of f) n)" for n
    proof (cases "n = ''backup''")
      case True
      with IH(4) [of n] B1 [of n] show ?thesis by auto
    next
      case False
      with IH(4) [of n] B1 [of n] other [of n] show ?thesis by auto
    qed
  qed
qed

lemma xcopy_to_backup_exact:
  assumes "\<And>p. \<not> denied env BackupCopy p" "backup_exists f" "map_of (backup_of f) D = None"
    "wf_node (Dir f)"
  shows "map_of (backup_of (xcopy_to_backup env D f)) n =
           (if n = D \<and> is_dir (map_of f D) then map_of f D else map_of (backup_of f) n)"
proof (cases "map_of f D")
  case None
  then show ?thesis by (simp add: backup_of_xcopy_to_backup)
next
  case (Some v)
  show ?thesis
  proof (cases v)
    case (File b)
    with Some show ?thesis by (simp add: backup_of_xcopy_to_backup)
  next
    case (Dir es)
    with Some have "wf_node (Dir es)" using wf_subdir [OF assms(4), of D] by simp
    then have "copy_entries True (denied env BackupCopy) [''backup'', D] es [] = (es, True)"
      using assms(1) by (intro copy_fresh) simp_all
    with Dir Some assms(2,3) show ?thesis
      by (simp add: backup_of_xcopy_to_backup update_conv' Let_def is_file_def)
  qed
qed

lemma fs_step2:
  "fs (step2 env m) =
     dirs_copied env (dir_names (files_copied env (file_names (backup_made (fs m))) (backup_made (fs m))))
       (files_copied env (file_names (backup_made (fs m))) (backup_made (fs m)))"
  by (simp add: step2_def Let_def fs_backup_files fs_backup_dirs backup_made_def
        files_copied_def dirs_copied_def)

lemma wf_delete: "wf_node (Dir f) \<Longrightarrow> wf_node (Dir (AList.delete k f))"
proof -
  assume w: "wf_node (Dir f)"
  then have "distinct (map fst (AList.delete k f))" by (simp add: distinct_delete)
  moreover have "set (AList.delete k f) \<subseteq> set f" by (auto simp: AList.delete_eq)
  ultimately show ?thesis using w by auto
qed

lemma wf_rmdir_tree: "wf_node (Dir f) \<Longrightarrow> wf_node (Dir (rmdir_tree k f))"
  unfolding rmdir_tree_def using wf_delete [of f k] by (simp del: wf_node.simps)

lemma wf_Dir_Nil: "wf_node (Dir [])"
  by simp

lemma wf_mkdir: "wf_node (Dir f) \<Longrightarrow> wf_node (Dir (mkdir k f))"
  unfolding mkdir_def using wf_update [OF _ wf_Dir_Nil, of f k] by (simp del: wf_node.simps)

lemma wf_backup_made: "wf_node (Dir f) \<Longrightarrow> wf_node (Dir (backup_made f))"
  unfolding backup_made_def by (auto intro!: wf_mkdir wf_rmdir_tree simp del: wf_node.simps)

lemma wf_copy_into: "wf_node (Dir f) \<Longrightarrow> wf_node (Dir (fst (copy_into c den d src f)))"
proof -
  assume w: "wf_node (Dir f)"
  have "wf_node (Dir (fst (copy_entries c den [d] src (subdir f d))))"
    using wf_subdir [OF w] by (rule wf_copy_entries)
  with w have "wf_node (Dir (AList.update d (Dir (fst (copy_entries c den [d] src (subdir f d)))) f))"
    by (rule wf_update)
  with w show ?thesis by (simp add: copy_into_def Let_def del: wf_node.simps)
qed

lemma wf_copy_to_backup: "wf_node (Dir f) \<Longrightarrow> wf_node (Dir (copy_to_backup env F f))"
  unfolding copy_to_backup_def
  by (auto intro: wf_copy_into simp del: wf_node.simps split: option.splits node.splits)

lemma wf_xcopy_to_backup: "wf_node (Dir f) \<Longrightarrow> wf_node (Dir (xcopy_to_backup env D f))"
  unfolding xcopy_to_backup_def
  by (auto intro: wf_copy_into simp del: wf_node.simps split: option.splits node.splits)

lemma wf_files_copied: "wf_node (Dir f) \<Longrightarrow> wf_node (Dir (files_copied env ns f))"
  unfolding files_copied_def
  by (induction ns arbitrary: f) (auto intro: wf_copy_to_backup simp del: wf_node.simps)


lemma map_of_backup_made:
  "\<not> is_file (map_of f ''backup'') \<Longrightarrow>
   map_of (backup_made f) k = (if k = ''backup'' then Some (Dir []) else map_of f k)"
  by (cases "map_of f ''backup''")
     (auto simp: backup_made_def map_of_mkdir map_of_rmdir_tree is_file_def is_dir_def
           split: node.splits)

lemma dirs_fold_exact:
  assumes nd: "\<And>p. \<not> denied env BackupCopy p"
  shows "backup_exists f \<Longrightarrow> wf_node (Dir f) \<Longrightarrow> distinct ns \<Longrightarrow>
     (\<And>n. n \<in> set ns \<Longrightarrow> map_of (backup_of f) n = None) \<Longrightarrow>
     backup_exists (dirs_copied env ns f)
     \<and> (\<forall>k. k \<noteq> ''backup'' \<longrightarrow> map_of (dirs_copied env ns f) k = map_of f k)
     \<and> (\<forall>n. map_of (backup_of (dirs_copied env ns f)) n =
           (if n \<in> set ns \<and> n \<noteq> ''backup'' \<and> n \<noteq> ''update'' \<and> is_dir (map_of f n)
            then map_of f n else map_of (backup_of f) n))"
proof (induction ns arbitrary: f)
  case Nil
  then show ?case by (simp add: dirs_copied_def)
next
  case (Cons D ns)
  define f1 where "f1 = (if D \<noteq> ''backup'' \<and> D \<noteq> ''update'' then xcopy_to_backup env D f else f)"
  have unfold: "dirs_copied env (D # ns) f = dirs_copied env ns f1"
    by (simp add: dirs_copied_def f1_def)
  have ex: "backup_exists f1" using Cons.prems(1) by (simp add: f1_def xcopy_to_backup_exists)
  have wf1: "wf_node (Dir f1)" using Cons.prems(2)
    by (auto simp: f1_def intro: wf_xcopy_to_backup simp del: wf_node.simps)
  have other: "k \<noteq> ''backup'' \<Longrightarrow> map_of f1 k = map_of f k" for k
    by (simp add: f1_def xcopy_to_backup_other)
  have B1: "map_of (backup_of f1) n =
      (if n = D \<and> D \<noteq> ''backup'' \<and> D \<noteq> ''update'' \<and> is_dir (map_of f D)
       then map_of f D else map_of (backup_of f) n)" for n
    using xcopy_to_backup_exact [OF nd Cons.prems(1) Cons.prems(4) Cons.prems(2), of D n]
    by (auto simp: f1_def)
  have dist: "distinct ns" "D \<notin> set ns" using Cons.prems(3) by auto
  have none1: "map_of (backup_of f1) n = None" if "n \<in> set ns" for n
    using that Cons.prems(4) [of n] dist by (auto simp: B1)
  from Cons.IH [OF ex wf1 dist(1) none1]
  have IH: "backup_exists (dirs_copied env ns f1)"
    "\<And>k. k \<noteq> ''backup'' \<Longrightarrow> map_of (dirs_copied env ns f1) k = map_of f1 k"
    "\<And>n. map_of (backup_of (dirs_copied env ns f1)) n =
           (if n \<in> set ns \<and> n \<noteq> ''backup'' \<and> n \<noteq> ''update'' \<and> is_dir (map_of f1 n)
            then map_of f1 n else map_of (backup_of f1) n)"
    by blast+
  show ?case unfolding unfold
  proof (intro conjI allI impI)
    show "backup_exists (dirs_copied env ns f1)" by (rule IH(1))
    show "map_of (dirs_copied env ns f1) k = map_of f k" if "k \<noteq> ''backup''" for k
      using IH(2) [OF that] other [OF that] by simp
    show "map_of (backup_of (dirs_copied env ns f1)) n =
           (if n \<in> set (D # ns) \<and> n \<noteq> ''backup'' \<and> n \<noteq> ''update'' \<and> is_dir (map_of f n)
            then map_of f n else map_of (backup_of f) n)" for n
    proof (cases "n = ''backup''")
      case True
      with IH(3) [of n] B1 [of n] show ?thesis by auto
    next
      case False
      with IH(3) [of n] B1 [of n] other [of n] show ?thesis by auto
    qed
  qed
qed

lemma files_copied_exact:
  assumes nd: "\<And>p. \<not> denied env BackupCopy p"
    and "backup_exists f" "\<And>n. \<not> is_dir (map_of (backup_of f) n)"
  shows "backup_exists (files_copied env ns f)"
    and "k \<noteq> ''backup'' \<Longrightarrow> map_of (files_copied env ns f) k = map_of f k"
    and "map_of (backup_of (files_copied env ns f)) n =
           (if n \<in> set ns \<and> n \<noteq> ''backup'' \<and> n \<noteq> ''update_script.bat'' \<and> is_file (map_of f n)
            then map_of f n else map_of (backup_of f) n)"
  using files_fold_exact [OF nd assms(2,3), of ns] unfolding files_copied_def by blast+

lemma step2_exact:
  assumes wf: "wf_node (Dir f)" and nofile: "\<not> is_file (map_of f ''backup'')"
    and nd: "\<And>p. \<not> denied env BackupCopy p" and f: "fs m = f"
  shows "backup_exists (fs (step2 env m))"
    and "k \<noteq> ''backup'' \<Longrightarrow> map_of (fs (step2 env m)) k = map_of f k"
    and "map_of (backup_of (fs (step2 env m))) n = backed_up n (map_of f n)"
proof -
  define f2 where "f2 = backup_made f"
  define f3 where "f3 = files_copied env (file_names f2) f2"
  have step: "fs (step2 env m) = dirs_copied env (dir_names f3) f3"
    by (simp add: fs_step2 f f2_def f3_def)
  have m2: "map_of f2 k = (if k = ''backup'' then Some (Dir []) else map_of f k)" for k
    unfolding f2_def using nofile by (rule map_of_backup_made)
  have wf2: "wf_node (Dir f2)" unfolding f2_def using wf by (rule wf_backup_made)
  have ex2: "backup_exists f2" by (simp add: backup_exists_def m2)
  have B2: "backup_of f2 = []" by (simp add: backup_of_def m2)
  have nd2: "\<not> is_dir (map_of (backup_of f2) n)" for n by (simp add: B2)
  note F = files_copied_exact [OF nd ex2 nd2, where ns = "file_names f2", folded f3_def]
  have d2: "distinct (map fst f2)" using wf2 by simp
  have B3: "map_of (backup_of f3) n =
      (if n \<noteq> ''backup'' \<and> n \<noteq> ''update_script.bat'' \<and> is_file (map_of f n) then map_of f n else None)" for n
    using F(3) [of n] by (auto simp: in_file_names [OF d2] m2 B2)
  have wf3: "wf_node (Dir f3)" unfolding f3_def using wf2 by (rule wf_files_copied)
  then have d3: "distinct (map fst f3)" by simp
  have dn: "distinct (dir_names f3)" using d3 by (rule distinct_dir_names)
  have none3: "map_of (backup_of f3) n = None" if "n \<in> set (dir_names f3)" for n
  proof (cases "n = ''backup''")
    case True
    then show ?thesis by (simp add: B3)
  next
    case False
    from that have "is_dir (map_of f3 n)" by (simp add: in_dir_names [OF d3])
    with False have "is_dir (map_of f n)" by (simp add: F(2) m2)
    then have "\<not> is_file (map_of f n)" by (auto simp: is_dir_def is_file_def split: option.splits node.splits)
    then show ?thesis by (simp add: B3)
  qed
  from dirs_fold_exact [OF nd F(1) wf3 dn none3]
  have D: "backup_exists (dirs_copied env (dir_names f3) f3)"
    "\<And>k. k \<noteq> ''backup'' \<Longrightarrow> map_of (dirs_copied env (dir_names f3) f3) k = map_of f3 k"
    "\<And>n. map_of (backup_of (dirs_copied env (dir_names f3) f3)) n =
           (if n \<in> set (dir_names f3) \<and> n \<noteq> ''backup'' \<and> n \<noteq> ''update'' \<and> is_dir (map_of f3 n)
            then map_of f3 n else map_of (backup_of f3) n)"
    by blast+
  show "backup_exists (fs (step2 env m))" unfolding step by (rule D(1))
  show "map_of (fs (step2 env m)) k = map_of f k" if "k \<noteq> ''backup''" for k
    unfolding step using that by (simp add: D(2) F(2) m2)
  show "map_of (backup_of (fs (step2 env m))) n = backed_up n (map_of f n)"
  proof (cases "n = ''backup''")
    case True
    then show ?thesis unfolding step
      by (simp add: D(3) B3 backed_up_def split: option.splits node.splits)
  next
    case False
    then have same: "map_of f3 n = map_of f n" by (simp add: F(2) m2)
    show ?thesis unfolding step
      using False
      by (cases "map_of f n")
         (auto simp: D(3) B3 same in_dir_names [OF d3] backed_up_def is_dir_def is_file_def
               split: node.splits)
  qed
qed

text \<open>
  C8, amended. When the current directory has distinct names, holds no file named
  \<^verbatim>\<open>backup\<close> and no copy is refused, step 2 leaves a directory \<^verbatim>\<open>backup\<close> whose entries are
  exactly: every file of the current directory except those named \<^verbatim>\<open>backup\<close> and
  \<^verbatim>\<open>update_script.bat\<close>, and every directory, with its whole tree, except those named
  \<^verbatim>\<open>backup\<close> and \<^verbatim>\<open>update\<close>.
\<close>

theorem backup_mirror:
  assumes "wf_node (Dir (fs m))" and "\<not> is_file (map_of (fs m) ''backup'')"
    and "\<forall>p. \<not> denied env BackupCopy p"
  shows "backup_exists (fs (step2 env m))
         \<and> map_of (backup_of (fs (step2 env m))) n = backed_up n (map_of (fs m) n)"
proof -
  have nd: "\<And>p. \<not> denied env BackupCopy p" using assms(3) by simp
  show ?thesis
    using step2_exact(1) [OF assms(1,2) nd refl] step2_exact(3) [OF assms(1,2) nd refl] by simp
qed

theorem backup_mirror_witness:
  "wf_node (Dir (fs (boot install_root)))
   \<and> \<not> is_file (map_of (fs (boot install_root)) ''backup'')
   \<and> (\<forall>p. \<not> denied calm BackupCopy p)
   \<and> backup_exists (fs (step2 calm (boot install_root)))
   \<and> map_of (backup_of (fs (step2 calm (boot install_root)))) ''lib''
       = Some (Dir [(''a.dll'', File ''a''), (''empty'', Dir [])])
   \<and> map_of (backup_of (fs (step2 calm (boot install_root)))) ''update_script.bat'' = None"
proof -
  have h: "wf_node (Dir (fs (boot install_root)))"
     "\<not> is_file (map_of (fs (boot install_root)) ''backup'')"
     "\<forall>p. \<not> denied calm BackupCopy p"
    by (simp_all add: boot_def install_root_def calm_def)
  have v: "backed_up ''lib'' (map_of (fs (boot install_root)) ''lib'')
             = Some (Dir [(''a.dll'', File ''a''), (''empty'', Dir [])])"
     "backed_up ''update_script.bat'' (map_of (fs (boot install_root)) ''update_script.bat'') = None"
    by (simp_all add: boot_def install_root_def backed_up_def)
  from backup_mirror [OF h, of "''lib''"] backup_mirror [OF h, of "''update_script.bat''"] h v
  show ?thesis by simp
qed

text \<open>
  C8, as stated, fails: the staging directory \<^verbatim>\<open>update\<close> is an entry of the installation
  root, it is neither the backup area nor the script, and step 2 does not copy it.
\<close>

theorem backup_omits_update_counterexample:
  "is_dir (map_of install_root ''update'')
   \<and> ''update'' \<noteq> ''backup'' \<and> ''update'' \<noteq> ''update_script.bat''
   \<and> map_of (backup_of (fs (step2 calm (boot install_root)))) ''update'' = None"
  by code_simp

subsection \<open>The life of the backup directory\<close>

lemma all_ok_exec:
  "all_ok (exec ph c f m) \<longleftrightarrow> all_ok m \<and> backup_rule (ph, c, f)"
  by (auto simp: all_ok_def exec_def)

lemma all_ok_field [simp]:
  "all_ok (m\<lparr>COUNT := a\<rparr>) = all_ok m"
  "all_ok (m\<lparr>RETRY := b\<rparr>) = all_ok m"
  "all_ok (m\<lparr>ERRORLEVEL := c\<rparr>) = all_ok m"
  "all_ok (m\<lparr>polls := d\<rparr>) = all_ok m"
  by (simp_all add: all_ok_def)

lemma fs_poll [simp]: "fs (poll s env m) = fs m"
  by (simp add: poll_def)

lemma fs_pause [simp]: "fs (pause s env m) = fs m"
  by (simp add: pause_def)

lemma fs_force_close [simp]: "fs (force_close s env m) = fs m"
  by (simp add: force_close_def)

lemma fs_wait_loop: "fs (wait_loop s env m) = fs m"
proof (induction s env m rule: wait_loop_induct2)
  case (1 s env m)
  then show ?case by (subst wait_loop_unfold) simp
qed

lemma all_ok_wait_steps:
  assumes "all_ok m" "\<not> backup_exists (fs m)"
  shows "all_ok (poll s env m)" "all_ok (pause s env m)" "all_ok (force_close s env m)"
  using assms by (simp_all add: poll_def pause_def force_close_def all_ok_exec backup_rule_def)

lemma all_ok_wait_loop:
  "all_ok m \<Longrightarrow> \<not> backup_exists (fs m) \<Longrightarrow> all_ok (wait_loop s env m)"
proof (induction s env m rule: wait_loop_induct2)
  case (1 s env m)
  show ?case
  proof (cases "task_listed env (polls m) \<and> \<not> max_wait_attempts s \<le> COUNT m")
    case True
    then have "all_ok (wait_loop s env (pause s env m))"
      using "1.prems" by (intro "1.IH") (simp_all add: all_ok_wait_steps)
    with True show ?thesis by (subst wait_loop_unfold) simp
  next
    case False
    then show ?thesis using "1.prems"
      by (subst wait_loop_unfold) (auto simp: all_ok_wait_steps)
  qed
qed

lemma all_ok_backup_files:
  "all_ok m \<Longrightarrow> backup_exists (fs m) \<Longrightarrow>
   all_ok (backup_files env ns m) \<and> backup_exists (fs (backup_files env ns m))"
proof (induction ns arbitrary: m)
  case Nil
  then show ?case by simp
next
  case (Cons F ns)
  let ?m' = "exec BACKUP (CopyToBackup F) (copy_to_backup env F (fs m)) m"
  have "all_ok ?m'" "backup_exists (fs ?m')"
    using Cons.prems by (simp_all add: all_ok_exec backup_rule_def copy_to_backup_exists)
  then have "all_ok (backup_files env ns ?m') \<and> backup_exists (fs (backup_files env ns ?m'))"
    by (rule Cons.IH)
  moreover have "all_ok (backup_files env ns m) \<and> backup_exists (fs (backup_files env ns m))"
    using Cons.prems by (rule Cons.IH)
  ultimately show ?case by simp
qed

lemma all_ok_backup_dirs:
  "all_ok m \<Longrightarrow> backup_exists (fs m) \<Longrightarrow>
   all_ok (backup_dirs env ns m) \<and> backup_exists (fs (backup_dirs env ns m))"
proof (induction ns arbitrary: m)
  case Nil
  then show ?case by simp
next
  case (Cons D ns)
  let ?m' = "exec BACKUP (XcopyToBackup D) (xcopy_to_backup env D (fs m)) m"
  have "all_ok ?m'" "backup_exists (fs ?m')"
    using Cons.prems by (simp_all add: all_ok_exec backup_rule_def xcopy_to_backup_exists)
  then have "all_ok (backup_dirs env ns ?m') \<and> backup_exists (fs (backup_dirs env ns ?m'))"
    by (rule Cons.IH)
  moreover have "all_ok (backup_dirs env ns m) \<and> backup_exists (fs (backup_dirs env ns m))"
    using Cons.prems by (rule Cons.IH)
  ultimately show ?case by simp
qed

lemma all_ok_step2:
  assumes "all_ok m" "map_of (fs m) ''backup'' = None"
  shows "all_ok (step2 env m) \<and> backup_exists (fs (step2 env m))"
proof -
  let ?m2 = "exec BACKUP MkdirBackup (mkdir ''backup'' (fs m)) m"
  have ex: "backup_exists (fs ?m2)" using assms(2) by (simp add: backup_exists_def map_of_mkdir)
  then have "all_ok ?m2" using assms(1) by (simp add: all_ok_exec backup_rule_def)
  from all_ok_backup_files [OF this ex, of env "file_names (fs ?m2)"]
  have "all_ok (backup_dirs env (dir_names (fs (backup_files env (file_names (fs ?m2)) ?m2)))
                  (backup_files env (file_names (fs ?m2)) ?m2))
        \<and> backup_exists (fs (backup_dirs env (dir_names (fs (backup_files env (file_names (fs ?m2)) ?m2)))
                  (backup_files env (file_names (fs ?m2)) ?m2)))"
    by (intro all_ok_backup_dirs) simp_all
  then show ?thesis using assms(2) by (simp add: step2_def Let_def)
qed

lemma copy_keeps_backup:
  "backup_exists f \<Longrightarrow> backup_exists (fst (copy_entries c den pre src f))"
  unfolding backup_exists_def by (rule copy_entries_keeps_dir)

lemma xcopy_update_keeps_backup: "backup_exists f \<Longrightarrow> backup_exists (fst (xcopy_update s den f))"
  by (simp add: xcopy_update_def copy_keeps_backup)

lemma xcopy_restore_keeps_backup: "backup_exists f \<Longrightarrow> backup_exists (fst (xcopy_restore den f))"
  by (simp add: xcopy_restore_def copy_keeps_backup)

lemma no_backup_rmdir: "\<not> backup_exists (rmdir_tree ''backup'' f)"
  by (simp add: backup_exists_def map_of_rmdir_tree)


lemma all_ok_attempt:
  "all_ok m \<Longrightarrow> backup_exists (fs m) \<Longrightarrow>
   all_ok (attempt s env m) \<and> backup_exists (fs (attempt s env m))"
  by (simp add: attempt_def all_ok_exec backup_rule_def xcopy_update_keeps_backup)

lemma all_ok_delay:
  "all_ok m \<Longrightarrow> backup_exists (fs m) \<Longrightarrow>
   all_ok (delay s env m) \<and> backup_exists (fs (delay s env m))"
  using all_ok_attempt [of m s env] by (simp add: delay_def all_ok_exec backup_rule_def)

lemma all_ok_retry_copy:
  "all_ok m \<Longrightarrow> backup_exists (fs m) \<Longrightarrow>
   all_ok (fst (retry_copy s env m))
   \<and> (backup_exists (fs (fst (retry_copy s env m))) \<longleftrightarrow> \<not> snd (retry_copy s env m))"
proof (induction s env m rule: retry_copy_induct2)
  case (1 s env m)
  note a = all_ok_attempt [OF "1.prems", of s env]
  show ?case
  proof (cases "ERRORLEVEL (attempt s env m) = 0")
    case True
    with a show ?thesis
      by (subst (1 2 3) retry_copy_unfold) (simp add: all_ok_exec backup_rule_def no_backup_rmdir)
  next
    case failed: False
    show ?thesis
    proof (cases "RETRY m + 1 < max_retry_attempts s")
      case True
      from all_ok_delay [OF "1.prems", of s env]
      have "all_ok (fst (retry_copy s env (delay s env m)))
        \<and> (backup_exists (fs (fst (retry_copy s env (delay s env m))))
            \<longleftrightarrow> \<not> snd (retry_copy s env (delay s env m)))"
        using failed True by (intro "1.IH") simp_all
      with failed True show ?thesis by (subst (1 2 3) retry_copy_unfold) simp
    next
      case False
      with failed a show ?thesis by (subst (1 2 3) retry_copy_unfold) simp
    qed
  qed
qed

lemma retry_copy_success_no_backup:
  "snd (retry_copy s env m) \<Longrightarrow> \<not> backup_exists (fs (fst (retry_copy s env m)))"
proof (induction s env m rule: retry_copy_induct2)
  case (1 s env m)
  show ?case
  proof (cases "ERRORLEVEL (attempt s env m) = 0")
    case True
    then show ?thesis by (subst retry_copy_unfold) (simp add: no_backup_rmdir)
  next
    case failed: False
    show ?thesis
    proof (cases "RETRY m + 1 < max_retry_attempts s")
      case True
      with failed "1.prems" have "snd (retry_copy s env (delay s env m))"
        by (subst (asm) retry_copy_unfold) simp
      with failed True have "\<not> backup_exists (fs (fst (retry_copy s env (delay s env m))))"
        by (intro "1.IH")
      with failed True show ?thesis by (subst retry_copy_unfold) simp
    next
      case False
      with failed "1.prems" show ?thesis by (subst (asm) retry_copy_unfold) simp
    qed
  qed
qed

lemma all_ok_step4:
  "all_ok m \<Longrightarrow> backup_exists (fs m) \<Longrightarrow> all_ok (step4 env m)"
  by (simp add: step4_def Let_def all_ok_exec backup_rule_def xcopy_restore_keeps_backup no_backup_rmdir)

lemma no_backup_step4: "\<not> backup_exists (fs (step4 env m))"
  by (simp add: step4_def Let_def no_backup_rmdir)

lemma no_backup_apply_update: "\<not> backup_exists (fs (apply_update s env m))"
  by (simp add: apply_update_def Let_def no_backup_step4 retry_copy_success_no_backup)

lemma all_ok_apply_update:
  assumes "all_ok m" "backup_exists (fs m)"
  shows "all_ok (apply_update s env m)"
proof -
  have "all_ok (m\<lparr>RETRY := 0\<rparr>)" "backup_exists (fs (m\<lparr>RETRY := 0\<rparr>))" using assms by simp_all
  from all_ok_retry_copy [OF this, of s env] show ?thesis
    by (auto simp: apply_update_def Let_def intro: all_ok_step4)
qed

lemma all_ok_cleanup:
  assumes "all_ok m" "\<not> backup_exists (fs m)"
  shows "all_ok (cleanup s m) \<and> \<not> backup_exists (fs (cleanup s m))"
proof -
  have 1: "\<not> backup_exists (rmdir_tree (updateDirStr s) (fs m))"
    using assms(2) by (simp add: backup_exists_def map_of_rmdir_tree)
  then have 2: "\<not> backup_exists (del_file ''update_script.bat'' (rmdir_tree (updateDirStr s) (fs m)))"
    by (simp add: backup_exists_def map_of_del_file)
  from assms(1) 1 2 show ?thesis
    by (simp add: cleanup_def Let_def all_ok_exec backup_rule_def)
qed

text \<open>
  C6, amended. No backup directory is left when a run ends: it is removed after a
  successful copy attempt and after the restore of step 4, whether the restore succeeded
  or not. When the installation root has no entry named \<^verbatim>\<open>backup\<close> at the start, the
  backup directory exists exactly from \<^verbatim>\<open>mkdir backup\<close> in step 2 to the \<^verbatim>\<open>rmdir\<close> that ends
  step 3 or step 4: it is there before step 3 begins, and gone during step 5.
\<close>

theorem backup_lifetime:
  "\<not> backup_exists (fs (run_script s env f))
   \<and> (map_of f ''backup'' = None \<longrightarrow> (\<forall>x \<in> set (trace (run_script s env f)). backup_rule x))"
proof (intro conjI impI)
  have 1: "\<not> backup_exists (rmdir_tree (updateDirStr s) g)" if "\<not> backup_exists g" for g
    using that by (simp add: backup_exists_def map_of_rmdir_tree)
  have 2: "\<not> backup_exists (del_file ''update_script.bat'' g)" if "\<not> backup_exists g" for g
    using that by (simp add: backup_exists_def map_of_del_file)
  show "\<not> backup_exists (fs (run_script s env f))"
    by (simp add: run_script_def cleanup_def Let_def 1 2 no_backup_apply_update)
next
  assume none: "map_of f ''backup'' = None"
  let ?m0 = "(boot f)\<lparr>COUNT := 0\<rparr>"
  have "all_ok ?m0" by (simp add: all_ok_def boot_def)
  moreover have nb: "\<not> backup_exists (fs ?m0)" using none by (simp add: boot_def backup_exists_def)
  ultimately have "all_ok (wait_loop s env ?m0)" by (rule all_ok_wait_loop)
  moreover have "map_of (fs (wait_loop s env ?m0)) ''backup'' = None"
    using none by (simp add: fs_wait_loop boot_def)
  ultimately have "all_ok (step2 env (wait_loop s env ?m0))
      \<and> backup_exists (fs (step2 env (wait_loop s env ?m0)))"
    by (rule all_ok_step2)
  then have "all_ok (apply_update s env (step2 env (wait_loop s env ?m0)))"
    by (intro all_ok_apply_update) simp_all
  then have "all_ok (run_script s env f)"
    unfolding run_script_def using no_backup_apply_update all_ok_cleanup by blast
  then show "\<forall>x \<in> set (trace (run_script s env f)). backup_rule x" by (simp add: all_ok_def)
qed

theorem backup_lifetime_witness:
  "map_of install_root ''backup'' = None
   \<and> \<not> backup_exists (fs (run_script the_script calm install_root))
   \<and> fst (trace (run_script the_script calm install_root) ! 1) = BACKUP
   \<and> backup_exists (snd (snd (trace (run_script the_script calm install_root) ! 1)))"
proof -
  let ?x = "trace (run_script the_script calm install_root) ! 1"
  have none: "map_of install_root ''backup'' = None" by (simp add: install_root_def)
  have "1 < length (trace (run_script the_script calm install_root))" by code_simp
  then have mem: "?x \<in> set (trace (run_script the_script calm install_root))" by (rule nth_mem)
  have x: "fst ?x = BACKUP" "fst (snd ?x) = MkdirBackup" by code_simp+
  from backup_lifetime [of the_script calm install_root] none mem
  have "\<not> backup_exists (fs (run_script the_script calm install_root))" "backup_rule ?x"
    by blast+
  with none x show ?thesis by (simp add: backup_rule_def)
qed

text \<open>
  C6, as stated, fails in both directions in one run: after \<^verbatim>\<open>mkdir backup\<close> of step 2 the
  backup exists and step 3 has not begun; after the last command of step 5 step 3 has
  begun and the backup does not exist.
\<close>

theorem backup_before_apply_counterexample:
  "fst (trace (run_script the_script calm install_root) ! 1) = BACKUP
   \<and> \<not> apply_begun BACKUP
   \<and> backup_exists (snd (snd (trace (run_script the_script calm install_root) ! 1)))
   \<and> fst (last (trace (run_script the_script calm install_root))) = CLEANUP
   \<and> apply_begun CLEANUP
   \<and> \<not> backup_exists (snd (snd (last (trace (run_script the_script calm install_root)))))"
  by code_simp

subsection \<open>Backup and rollback\<close>





































end
